theory Spec2Isabelle
  imports Main "HOL-Library.Sublist"
begin

section \<open>The multi-agent coordinator (src/services/multiAgentCoordinator.js)\<close>

text \<open>
  A shallow embedding of the class \<^verbatim>\<open>MultiAgentCoordinator\<close>. JavaScript objects that
  the coordinator treats as opaque (agent results, step parameters, the answers of the
  security agent) are values of \<open>jsval\<close>; an \<^verbatim>\<open>Error\<close> is its message, since
  \<^verbatim>\<open>canContinueOnError\<close> and \<^verbatim>\<open>classifyError\<close> look at nothing else. A function that can
  throw returns \<open>error + 'a\<close>, with \<open>Inl\<close> for the thrown error. Task objects are shared
  between \<^verbatim>\<open>taskQueue\<close> and \<^verbatim>\<open>activeTasks\<close> and mutated in place, so they live in an
  explicit store \<open>heap\<close> and both containers hold references. \<^verbatim>\<open>Date.now()\<close> reads the
  field \<open>now\<close>; strings are byte strings and \<^verbatim>\<open>toLowerCase\<close> is modelled on ASCII.

  \<^verbatim>\<open>processTasks\<close> awaits each \<^verbatim>\<open>executeTask\<close> and is guarded by \<^verbatim>\<open>isProcessing\<close>, and
  \<^verbatim>\<open>executeTask\<close> awaits each step, so executions do not interleave: \<^verbatim>\<open>executeTask\<close> is one
  transition of the state. What it emits and what it calls on agents is appended to the
  field \<open>events\<close> in the order in which it happens; an invocation is in flight from the
  call of \<^verbatim>\<open>agent.execute\<close> until the race with the timeout is settled.

  The listeners \<^verbatim>\<open>registerAgent\<close> installs run when an agent instance emits an event;
  an emission is a transition of its own (\<open>agentEmits\<close>), which can happen between any
  two statements separated by an \<^verbatim>\<open>await\<close>.
\<close>

subsection \<open>JavaScript values and strings\<close>

type_synonym error = string

datatype jsval =
    JUndefined
  | JNull
  | JBool bool
  | JNum int
  | JStr string
  | JObj "(string \<times> jsval) list"

fun truthy :: "jsval \<Rightarrow> bool" where
  "truthy JUndefined = False"
| "truthy JNull = False"
| "truthy (JBool b) = b"
| "truthy (JNum n) = (n \<noteq> 0)"
| "truthy (JStr s) = (s \<noteq> [])"
| "truthy (JObj kvs) = True"

text \<open>Property read \<^verbatim>\<open>v.k\<close>: a TypeError on undefined and null, undefined when absent.\<close>

fun get_prop :: "jsval \<Rightarrow> string \<Rightarrow> error + jsval" where
  "get_prop JUndefined k = Inl (''Cannot read properties of undefined (reading '' @ k @ '')'')"
| "get_prop JNull k = Inl (''Cannot read properties of null (reading '' @ k @ '')'')"
| "get_prop (JObj kvs) k = Inr (case map_of kvs k of Some v \<Rightarrow> v | None \<Rightarrow> JUndefined)"
| "get_prop v k = Inr JUndefined"

text \<open>\<^verbatim>\<open>Object.values(v)\<close> for a truthy \<open>v\<close>: the characters of a string, nothing for
  a number or a boolean.\<close>

fun object_values :: "jsval \<Rightarrow> jsval list" where
  "object_values (JObj kvs) = map snd kvs"
| "object_values (JStr s) = map (\<lambda>c. JStr [c]) s"
| "object_values v = []"

fun startsWith :: "string \<Rightarrow> string \<Rightarrow> bool" where
  "startsWith s [] = True"
| "startsWith [] (c # cs) = False"
| "startsWith (d # ds) (c # cs) = (d = c \<and> startsWith ds cs)"

text \<open>\<^verbatim>\<open>s.includes(sub)\<close> on strings.\<close>

fun str_includes :: "string \<Rightarrow> string \<Rightarrow> bool" where
  "str_includes [] sub = (sub = [])"
| "str_includes (c # cs) sub = (startsWith (c # cs) sub \<or> str_includes cs sub)"

definition toLowerChar :: "char \<Rightarrow> char" where
  "toLowerChar c =
     (case map_of (zip ''ABCDEFGHIJKLMNOPQRSTUVWXYZ'' ''abcdefghijklmnopqrstuvwxyz'') c of
        Some l \<Rightarrow> l | None \<Rightarrow> c)"

definition toLowerCase :: "string \<Rightarrow> string" where
  "toLowerCase s = map toLowerChar s"

fun digit_char :: "nat \<Rightarrow> char" where
  "digit_char n = (''0123456789'' ! (n mod 10))"

fun string_of_nat :: "nat \<Rightarrow> string" where
  "string_of_nat n = (if n < 10 then [digit_char n] else string_of_nat (n div 10) @ [digit_char n])"

declare string_of_nat.simps [simp del]

subsection \<open>Data model\<close>

record step =
  agent :: string
  action :: string
  parameters :: jsval
  critical :: bool

record plan =
  intent :: string
  steps :: "step list"

text \<open>The task context: the fields the coordinator reads. \<open>allowPartialFailure\<close> is
  compared with \<^verbatim>\<open>!== false\<close>, so it stays a JavaScript value.\<close>

record context_bag =
  confirmedOperations :: "string list option"
  allowPartialFailure :: jsval
  authorizationLevel :: jsval
  userEmotion :: jsval

datatype task_status = Pending | Executing | Completed | Failed

text \<open>An entry of \<^verbatim>\<open>results\<close> in \<^verbatim>\<open>executeTask\<close>: \<^verbatim>\<open>{success: true, result, step}\<close> from
  \<^verbatim>\<open>executeTaskStep\<close>, or \<^verbatim>\<open>{success: false, error, step}\<close> from the catch block.\<close>

record step_outcome =
  success :: bool
  result :: jsval
  error :: "string option"
  step :: step

text \<open>The object literals above seen through a dynamic property read.\<close>

definition outcome_prop :: "step_outcome \<Rightarrow> string \<Rightarrow> jsval" where
  "outcome_prop r k =
     (if k = ''success'' then JBool (success r)
      else if k = ''result'' \<and> success r then result r
      else if k = ''error'' \<and> \<not> success r then (case error r of Some e \<Rightarrow> JStr e | None \<Rightarrow> JUndefined)
      else if k = ''step'' then
        JObj [(''agent'', JStr (agent (step r))), (''action'', JStr (action (step r))),
              (''parameters'', parameters (step r))]
      else JUndefined)"

datatype response_class = SuccessResponse | PartialSuccessResponse | FailureResponse

record task_result =
  tr_success :: bool
  primaryResult :: jsval
  allResults :: "step_outcome list"
  successfulSteps :: nat
  failedSteps :: nat
  unifiedResponse :: jsval
  executionTime :: int

record task =
  task_id :: string
  task_type :: string
  priority :: int
  input :: string
  ctx :: context_bag
  plan :: plan
  status :: task_status
  created :: int
  task_timeout :: nat
  started :: "int option"
  completed :: "int option"
  task_res :: "task_result option"
  task_error :: "error option"
  progress :: jsval

text \<open>What \<^verbatim>\<open>withTimeout(agent.execute(...), timeout, ...)\<close> can see of an invocation: it
  resolves or rejects before the timeout, or it does neither.\<close>

datatype exec_outcome = Resolves jsval | Rejects error | Hangs

text \<open>An agent instance: the methods the coordinator calls on it. \<open>requestConfirmation\<close>
  also returns the task context it leaves behind (the security service records a granted
  action in \<^verbatim>\<open>task.context.confirmedOperations\<close>).\<close>

record agent_instance =
  execute :: "string \<Rightarrow> jsval \<Rightarrow> context_bag \<Rightarrow> exec_outcome"
  requestConfirmation :: "task \<Rightarrow> step \<Rightarrow> (error + jsval) \<times> context_bag"
  analyzeRequest :: "string \<Rightarrow> context_bag \<Rightarrow> error + jsval"
  analyzeIntent :: "string \<Rightarrow> context_bag \<Rightarrow> error + plan"
  determineResponseTone :: "jsval \<Rightarrow> step_outcome list \<Rightarrow> error + string"

record agent_config =
  cfg_priority :: nat
  capabilities :: "string list"
  maxConcurrentTasks :: nat
  timeout :: nat
  requiresConfirmation :: bool

text \<open>The table \<^verbatim>\<open>this.agentConfig\<close> of the constructor: its eight own properties
  (the names it inherits from \<^verbatim>\<open>Object.prototype\<close> are not agent kinds here).\<close>

definition agentConfig :: "string \<Rightarrow> agent_config option" where
  "agentConfig = map_of
    [(''reasoning'', \<lparr>cfg_priority = 1, capabilities = [''analysis'', ''planning'', ''decision_making''],
        maxConcurrentTasks = 2, timeout = 30000, requiresConfirmation = False\<rparr>),
     (''planning'', \<lparr>cfg_priority = 2,
        capabilities = [''task_decomposition'', ''scheduling'', ''resource_allocation''],
        maxConcurrentTasks = 3, timeout = 45000, requiresConfirmation = False\<rparr>),
     (''os_control'', \<lparr>cfg_priority = 3,
        capabilities = [''system_commands'', ''file_management'', ''automation''],
        maxConcurrentTasks = 1, timeout = 20000, requiresConfirmation = True\<rparr>),
     (''smart_home'', \<lparr>cfg_priority = 4,
        capabilities = [''device_control'', ''automation'', ''energy_management''],
        maxConcurrentTasks = 5, timeout = 15000, requiresConfirmation = False\<rparr>),
     (''security'', \<lparr>cfg_priority = 0,
        capabilities = [''access_control'', ''threat_detection'', ''privacy_protection''],
        maxConcurrentTasks = 1, timeout = 10000, requiresConfirmation = False\<rparr>),
     (''emotion'', \<lparr>cfg_priority = 5,
        capabilities = [''emotion_analysis'', ''response_adaptation'', ''empathy''],
        maxConcurrentTasks = 2, timeout = 5000, requiresConfirmation = False\<rparr>),
     (''voice'', \<lparr>cfg_priority = 6,
        capabilities = [''speech_recognition'', ''speech_synthesis'', ''wake_word_detection''],
        maxConcurrentTasks = 1, timeout = 8000, requiresConfirmation = False\<rparr>),
     (''face'', \<lparr>cfg_priority = 7,
        capabilities = [''face_recognition'', ''user_identification'', ''access_control''],
        maxConcurrentTasks = 1, timeout = 12000, requiresConfirmation = False\<rparr>)]"

definition taskPriorities_user_request :: int where
  "taskPriorities_user_request = 2"

definition coordinator_maxConcurrentTasks :: nat where
  "coordinator_maxConcurrentTasks = 10"

definition taskTimeout :: nat where
  "taskTimeout = 60000"

text \<open>What the coordinator emits and what it calls on agents, in order.\<close>

datatype event =
    TaskCompletedEvent string
  | TaskFailedEvent string error
  | TaskProgressEvent string jsval
  | ConfirmationRequested string step
  | AgentInvoked string string
  | AgentSettled string

record coordinator =
  agents :: "string \<rightharpoonup> agent_instance"
  agentCapabilities :: "string \<rightharpoonup> string list"
  heap :: "nat \<Rightarrow> task"
  activeTasks :: "(string \<times> nat) list"
  taskQueue :: "nat list"
  taskResults :: "(string \<times> task_result) list"
  isProcessing :: bool
  events :: "event list"
  now :: int
  nextRef :: nat
  listeners :: "string list"
  activeServices :: "string set"

text \<open>\<^verbatim>\<open>Map.prototype.set\<close> on an insertion-ordered map.\<close>

fun map_set :: "'k \<Rightarrow> 'v \<Rightarrow> ('k \<times> 'v) list \<Rightarrow> ('k \<times> 'v) list" where
  "map_set k v [] = [(k, v)]"
| "map_set k v ((k', v') # kvs) = (if k' = k then (k, v) # kvs else (k', v') # map_set k v kvs)"

subsection \<open>Agent registry\<close>

text \<open>Each call installs the three listeners on the instance; \<open>listeners\<close> keeps the
  kind they are bound to, one entry for each call.\<close>

definition registerAgent :: "coordinator \<Rightarrow> string \<Rightarrow> agent_instance \<Rightarrow> error + coordinator" where
  "registerAgent st agentType agentInstance =
     (case agentConfig agentType of
        None \<Rightarrow> Inl (''Unknown agent type: '' @ agentType)
      | Some cfg \<Rightarrow>
          Inr (st\<lparr>agents := (agents st)(agentType \<mapsto> agentInstance),
                  agentCapabilities := (agentCapabilities st)(agentType \<mapsto> capabilities cfg),
                  listeners := listeners st @ [agentType]\<rparr>))"

subsection \<open>Priority dispatcher: the queue\<close>

text \<open>\<^verbatim>\<open>Array.prototype.sort\<close> is stable (ECMAScript 2019), and the comparator
  \<^verbatim>\<open>a.priority - b.priority\<close> orders by ascending priority: the stable sort by that key.\<close>

definition addTask :: "coordinator \<Rightarrow> nat \<Rightarrow> coordinator" where
  "addTask st r =
     st\<lparr>taskQueue := sort_key (\<lambda>q. priority (heap st q)) (taskQueue st @ [r]),
        activeTasks := map_set (task_id (heap st r)) r (activeTasks st)\<rparr>"

text \<open>\<^verbatim>\<open>this.taskQueue.shift()\<close>: the removed head, if any, and the state left.\<close>

definition shift :: "coordinator \<Rightarrow> nat option \<times> coordinator" where
  "shift st = (case taskQueue st of [] \<Rightarrow> (None, st) | r # q \<Rightarrow> (Some r, st\<lparr>taskQueue := q\<rparr>))"

subsection \<open>Retention sweeper\<close>

definition maxAge :: int where
  "maxAge = 5 * 60 * 1000"

definition expired :: "coordinator \<Rightarrow> task \<Rightarrow> bool" where
  "expired st t = (case completed t of None \<Rightarrow> False | Some c \<Rightarrow> now st - c > maxAge)"

text \<open>The loop deletes the current entry while it iterates the map; the entries not yet
  visited are unaffected, so the loop is a filter. An entry of \<^verbatim>\<open>taskResults\<close> goes
  when its key is the key of a deleted entry.\<close>

definition cleanupCompletedTasks :: "coordinator \<Rightarrow> coordinator" where
  "cleanupCompletedTasks st =
     (let gone = map fst (filter (\<lambda>(k, r). expired st (heap st r)) (activeTasks st))
      in st\<lparr>activeTasks := filter (\<lambda>(k, r). \<not> expired st (heap st r)) (activeTasks st),
            taskResults := filter (\<lambda>(k, res). k \<notin> set gone) (taskResults st)\<rparr>)"

subsection \<open>Step executor\<close>

definition getAgentActiveTasks :: "coordinator \<Rightarrow> string \<Rightarrow> nat" where
  "getAgentActiveTasks st agentType =
     length (filter (\<lambda>t. status t = Executing \<and> list_ex (\<lambda>s. agent s = agentType) (steps (plan t)))
               (map (\<lambda>(k, r). heap st r) (activeTasks st)))"

definition getActiveTaskCount :: "coordinator \<Rightarrow> nat" where
  "getActiveTaskCount st =
     length (filter (\<lambda>t. status t = Executing) (map (\<lambda>(k, r). heap st r) (activeTasks st)))"

text \<open>Reading \<^verbatim>\<open>config.maxConcurrentTasks\<close> throws when the kind has no configuration.\<close>

definition isAgentAvailable :: "coordinator \<Rightarrow> string \<Rightarrow> error + bool" where
  "isAgentAvailable st agentType =
     (case agents st agentType of
        None \<Rightarrow> Inr False
      | Some a \<Rightarrow>
          (case agentConfig agentType of
             None \<Rightarrow> Inl ''Cannot read properties of undefined (reading maxConcurrentTasks)''
           | Some config \<Rightarrow> Inr (getAgentActiveTasks st agentType < maxConcurrentTasks config)))"

definition sensitiveActions :: "string list" where
  "sensitiveActions =
     [''format'', ''delete'', ''shutdown'', ''restart'', ''kill'',
      ''uninstall'', ''remove'', ''disable'', ''grant_access'']"

definition isSensitiveOperation :: "step \<Rightarrow> bool" where
  "isSensitiveOperation s =
     list_ex (\<lambda>a.
        str_includes (toLowerCase (action s)) a \<or>
        (truthy (parameters s) \<and>
         list_ex (\<lambda>param. case param of
                     JStr p \<Rightarrow> list_ex (\<lambda>a'. str_includes (toLowerCase p) a') sensitiveActions
                   | _ \<Rightarrow> False)
           (object_values (parameters s))))
       sensitiveActions"

definition alreadyConfirmed :: "task \<Rightarrow> step \<Rightarrow> bool" where
  "alreadyConfirmed t s =
     (case confirmedOperations (ctx t) of None \<Rightarrow> False | Some ops \<Rightarrow> action s \<in> set ops)"

definition emit :: "event \<Rightarrow> coordinator \<Rightarrow> coordinator" where
  "emit e st = st\<lparr>events := events st @ [e]\<rparr>"

definition update_task :: "nat \<Rightarrow> (task \<Rightarrow> task) \<Rightarrow> coordinator \<Rightarrow> coordinator" where
  "update_task r f st = st\<lparr>heap := (heap st)(r := f (heap st r))\<rparr>"

text \<open>The boolean returned is the truthiness of \<^verbatim>\<open>confirmation.confirmed\<close>, which is all the
  caller's \<^verbatim>\<open>!await ...\<close> looks at.\<close>

definition confirmSensitiveOperation :: "coordinator \<Rightarrow> nat \<Rightarrow> step \<Rightarrow> (error + bool) \<times> coordinator" where
  "confirmSensitiveOperation st r s =
     (if alreadyConfirmed (heap st r) s then (Inr True, st)
      else case agents st ''security'' of
        Some securityAgent \<Rightarrow>
          (let st1 = emit (ConfirmationRequested (task_id (heap st r)) s) st;
               (answer, c) = requestConfirmation securityAgent (heap st r) s;
               st2 = update_task r (\<lambda>t. t\<lparr>ctx := c\<rparr>) st1
           in case answer of
                Inl e \<Rightarrow> (Inl e, st2)
              | Inr confirmation \<Rightarrow>
                  (case get_prop confirmation ''confirmed'' of
                     Inl e \<Rightarrow> (Inl e, st2)
                   | Inr v \<Rightarrow> (Inr (truthy v), st2)))
      | None \<Rightarrow> (Inr False, st))"

definition canContinueOnError :: "task \<Rightarrow> step \<Rightarrow> error \<Rightarrow> bool" where
  "canContinueOnError t s err =
     (if critical s then False
      else if str_includes err ''Security'' \<or> str_includes err ''Authorization'' then False
      else allowPartialFailure (ctx t) \<noteq> JBool False)"

text \<open>The invocation itself: \<^verbatim>\<open>agent.execute\<close> raced against the timeout configured for
  the kind (the configuration exists, or \<^verbatim>\<open>isAgentAvailable\<close> has thrown before). The
  coordinator stops waiting when either settles; both ends are logged.\<close>

definition invokeAgent :: "coordinator \<Rightarrow> agent_instance \<Rightarrow> nat \<Rightarrow> step \<Rightarrow> (error + step_outcome) \<times> coordinator" where
  "invokeAgent st a r s =
     (let st1 = emit (AgentInvoked (agent s) (action s)) st;
          outcome = execute a (action s) (parameters s) (ctx (heap st r));
          st2 = emit (AgentSettled (agent s)) st1
      in case outcome of
           Resolves v \<Rightarrow> (Inr \<lparr>success = True, result = v, error = None, step = s\<rparr>, st2)
         | Rejects e \<Rightarrow> (Inl e, st2)
         | Hangs \<Rightarrow> (Inl (''Step timeout: '' @ action s), st2))"

definition executeTaskStep :: "coordinator \<Rightarrow> nat \<Rightarrow> step \<Rightarrow> (error + step_outcome) \<times> coordinator" where
  "executeTaskStep st r s =
     (case agents st (agent s) of
        None \<Rightarrow> (Inl (''Agent not available: '' @ agent s), st)
      | Some a \<Rightarrow>
          (case isAgentAvailable st (agent s) of
             Inl e \<Rightarrow> (Inl e, st)
           | Inr False \<Rightarrow> (Inl (''Agent '' @ agent s @ '' is busy''), st)
           | Inr True \<Rightarrow>
               (if isSensitiveOperation s then
                  (case confirmSensitiveOperation st r s of
                     (Inl e, st1) \<Rightarrow> (Inl e, st1)
                   | (Inr False, st1) \<Rightarrow> (Inl ''Sensitive operation requires confirmation'', st1)
                   | (Inr True, st1) \<Rightarrow> invokeAgent st1 a r s)
                else invokeAgent st a r s)))"

subsection \<open>Result aggregator\<close>

text \<open>The three branches of \<^verbatim>\<open>generateUnifiedResponse\<close>.\<close>

definition classify :: "step_outcome list \<Rightarrow> response_class" where
  "classify results =
     (if list_all success results then SuccessResponse
      else if list_ex success results then PartialSuccessResponse
      else FailureResponse)"

text \<open>\<^verbatim>\<open>results[results.length - 1]\<close> is undefined on an empty array, and reading
  \<^verbatim>\<open>.result\<close> from it throws.\<close>

definition generateSuccessResponse :: "step_outcome list \<Rightarrow> error + jsval" where
  "generateSuccessResponse results =
     (if results = [] then Inl ''Cannot read properties of undefined (reading result)''
      else let lastResult = last results in
        if truthy (result lastResult) then
          (case get_prop (result lastResult) ''response'' of
             Inl e \<Rightarrow> Inl e
           | Inr resp \<Rightarrow> Inr (if truthy resp then resp else JStr ''Task completed successfully, Sir.''))
        else Inr (JStr ''Task completed successfully, Sir.''))"

definition generatePartialSuccessResponse :: "step_outcome list \<Rightarrow> jsval" where
  "generatePartialSuccessResponse results =
     JStr (''Task partially completed. '' @ string_of_nat (length (filter success results)) @ '' of ''
           @ string_of_nat (length results) @ '' steps succeeded, Sir.'')"

definition generateFailureResponse :: "step_outcome list \<Rightarrow> jsval" where
  "generateFailureResponse results =
     (case find (\<lambda>r. \<not> success r) results of
        Some firstError \<Rightarrow>
          (case error firstError of
             Some e \<Rightarrow> if e \<noteq> [] then JStr (''Unable to complete the task. '' @ e @ '', Sir.'')
                       else JStr ''Task failed to complete, Sir.''
           | None \<Rightarrow> JStr ''Task failed to complete, Sir.'')
      | None \<Rightarrow> JStr ''Task failed to complete, Sir.'')"

definition generateUnifiedResponse :: "coordinator \<Rightarrow> task \<Rightarrow> step_outcome list \<Rightarrow> error + jsval" where
  "generateUnifiedResponse st t results =
     (case (case agents st ''emotion'' of
              None \<Rightarrow> Inr ''professional''
            | Some emotionAgent \<Rightarrow> determineResponseTone emotionAgent (userEmotion (ctx t)) results) of
        Inl e \<Rightarrow> Inl e
      | Inr tone \<Rightarrow>
          (case classify results of
             SuccessResponse \<Rightarrow> generateSuccessResponse results
           | PartialSuccessResponse \<Rightarrow> Inr (generatePartialSuccessResponse results)
           | FailureResponse \<Rightarrow> Inr (generateFailureResponse results)))"

definition compileTaskResults :: "coordinator \<Rightarrow> task \<Rightarrow> step_outcome list \<Rightarrow> error + task_result" where
  "compileTaskResults st t results =
     (let successfulResults = filter success results;
          failedResults = filter (\<lambda>r. \<not> success r) results;
          primary = (if length successfulResults > 0 then result (last successfulResults) else JNull)
      in case generateUnifiedResponse st t results of
           Inl e \<Rightarrow> Inl e
         | Inr unified \<Rightarrow>
             (case started t of
                None \<Rightarrow> Inl ''Cannot read properties of undefined (reading getTime)''
              | Some t0 \<Rightarrow>
                  Inr \<lparr>tr_success = (length successfulResults > 0),
                       primaryResult = primary,
                       allResults = results,
                       successfulSteps = length successfulResults,
                       failedSteps = length failedResults,
                       unifiedResponse = unified,
                       executionTime = now st - t0\<rparr>))"

subsection \<open>Task execution\<close>

text \<open>The \<^verbatim>\<open>for\<close> loop of \<^verbatim>\<open>executeTask\<close> over the remaining steps, with the results pushed so
  far. \<^verbatim>\<open>stepResult.complete\<close> is read from the object that \<^verbatim>\<open>executeTaskStep\<close> returned.\<close>

fun executeTask_loop :: "coordinator \<Rightarrow> nat \<Rightarrow> step list \<Rightarrow> step_outcome list
    \<Rightarrow> (error + step_outcome list) \<times> coordinator" where
  "executeTask_loop st r [] results = (Inr results, st)"
| "executeTask_loop st r (s # ss) results =
     (case executeTaskStep st r s of
        (Inr stepResult, st1) \<Rightarrow>
          (if truthy (outcome_prop stepResult ''complete'') then (Inr (results @ [stepResult]), st1)
           else executeTask_loop st1 r ss (results @ [stepResult]))
      | (Inl err, st1) \<Rightarrow>
          (if \<not> canContinueOnError (heap st1 r) s err then (Inl err, st1)
           else executeTask_loop st1 r ss
                  (results @ [\<lparr>success = False, result = JUndefined, error = Some err, step = s\<rparr>])))"

definition executeTask :: "coordinator \<Rightarrow> nat \<Rightarrow> (error + task_result) \<times> coordinator" where
  "executeTask st r =
     (let st1 = update_task r (\<lambda>t. t\<lparr>status := Executing, started := Some (now st)\<rparr>) st
      in case executeTask_loop st1 r (steps (plan (heap st1 r))) [] of
           (Inl e, st2) \<Rightarrow> (Inl e, st2)
         | (Inr results, st2) \<Rightarrow>
             (case compileTaskResults st2 (heap st2 r) results of
                Inl e \<Rightarrow> (Inl e, st2)
              | Inr finalResult \<Rightarrow>
                  (let st3 = update_task r
                         (\<lambda>t. t\<lparr>status := Completed, completed := Some (now st2),
                                task_res := Some finalResult\<rparr>) st2;
                       st4 = st3\<lparr>taskResults := map_set (task_id (heap st3 r)) finalResult (taskResults st3)\<rparr>
                   in (Inr finalResult, emit (TaskCompletedEvent (task_id (heap st3 r))) st4))))"

definition handleTaskError :: "coordinator \<Rightarrow> nat \<Rightarrow> error \<Rightarrow> coordinator" where
  "handleTaskError st r err =
     emit (TaskFailedEvent (task_id (heap st r)) err)
       (update_task r (\<lambda>t. t\<lparr>status := Failed, task_error := Some err, completed := Some (now st)\<rparr>) st)"

text \<open>One pass of the body of the \<^verbatim>\<open>while\<close> loop of \<^verbatim>\<open>processTasks\<close> on the task just
  shifted: \<^verbatim>\<open>executeTask\<close> is awaited, and what it throws goes to \<^verbatim>\<open>handleTaskError\<close>.\<close>

definition runTask :: "coordinator \<Rightarrow> nat \<Rightarrow> coordinator" where
  "runTask st r =
     (case executeTask st r of
        (Inl e, st1) \<Rightarrow> handleTaskError st1 r e
      | (Inr res, st1) \<Rightarrow> st1)"

subsection \<open>Agent events\<close>

text \<open>The handlers behind the listeners of \<^verbatim>\<open>registerAgent\<close>. \<^verbatim>\<open>updateSystemState\<close> adds
  the kind to \<^verbatim>\<open>systemState.activeServices\<close>; the performance metrics it also adjusts are
  floating-point numbers that no operation modelled here reads, and are left out. \<^verbatim>\<open>getStepResult\<close>
  returns null whatever it is given.\<close>

definition updateSystemState :: "coordinator \<Rightarrow> string \<Rightarrow> coordinator" where
  "updateSystemState st agentType = st\<lparr>activeServices := insert agentType (activeServices st)\<rparr>"

definition getStepResult :: "string \<Rightarrow> step \<Rightarrow> step_outcome option" where
  "getStepResult taskId s = None"

definition completeTask :: "coordinator \<Rightarrow> string \<Rightarrow> coordinator" where
  "completeTask st taskId =
     (case map_of (activeTasks st) taskId of
        None \<Rightarrow> st
      | Some r \<Rightarrow>
          emit (TaskCompletedEvent taskId)
            (update_task r (\<lambda>t. t\<lparr>status := Completed, completed := Some (now st)\<rparr>) st))"

definition checkTaskCompletion :: "coordinator \<Rightarrow> string \<Rightarrow> coordinator" where
  "checkTaskCompletion st taskId =
     (case map_of (activeTasks st) taskId of
        None \<Rightarrow> st
      | Some r \<Rightarrow>
          if status (heap st r) \<noteq> Executing then st
          else
            (let requiredAgents = set (map agent (steps (plan (heap st r))));
                 completedAgents =
                   set (map agent
                     (filter (\<lambda>s. case getStepResult taskId s of
                                      None \<Rightarrow> False | Some stepResult \<Rightarrow> success stepResult)
                        (steps (plan (heap st r)))))
             in if card completedAgents = card requiredAgents then completeTask st taskId else st))"

definition handleTaskFailure :: "coordinator \<Rightarrow> string \<Rightarrow> error \<Rightarrow> coordinator" where
  "handleTaskFailure st taskId err =
     (case map_of (activeTasks st) taskId of
        None \<Rightarrow> st
      | Some r \<Rightarrow>
          emit (TaskFailedEvent taskId err)
            (update_task r
               (\<lambda>t. t\<lparr>status := Failed, task_error := Some err, completed := Some (now st)\<rparr>) st))"

definition handleAgentTaskCompleted :: "coordinator \<Rightarrow> string \<Rightarrow> string \<Rightarrow> jsval \<Rightarrow> coordinator" where
  "handleAgentTaskCompleted st agentType taskId res =
     checkTaskCompletion (updateSystemState st agentType) taskId"

definition handleAgentTaskFailed :: "coordinator \<Rightarrow> string \<Rightarrow> string \<Rightarrow> error \<Rightarrow> coordinator" where
  "handleAgentTaskFailed st agentType taskId err =
     handleTaskFailure (updateSystemState st agentType) taskId err"

definition handleAgentTaskProgress :: "coordinator \<Rightarrow> string \<Rightarrow> string \<Rightarrow> jsval \<Rightarrow> coordinator" where
  "handleAgentTaskProgress st agentType taskId p =
     (case map_of (activeTasks st) taskId of
        None \<Rightarrow> st
      | Some r \<Rightarrow> emit (TaskProgressEvent taskId p) (update_task r (\<lambda>t. t\<lparr>progress := p\<rparr>) st))"

text \<open>What an agent instance can emit, and the listener that answers: an instance that
  \<^verbatim>\<open>registerAgent\<close> was given under a kind has the listeners bound to that kind.\<close>

datatype agent_event =
    EmitTaskCompleted string jsval
  | EmitTaskFailed string error
  | EmitTaskProgress string jsval

fun agentEmits :: "coordinator \<Rightarrow> string \<Rightarrow> agent_event \<Rightarrow> coordinator" where
  "agentEmits st agentType (EmitTaskCompleted taskId res) =
     (if agentType \<in> set (listeners st) then handleAgentTaskCompleted st agentType taskId res else st)"
| "agentEmits st agentType (EmitTaskFailed taskId err) =
     (if agentType \<in> set (listeners st) then handleAgentTaskFailed st agentType taskId err else st)"
| "agentEmits st agentType (EmitTaskProgress taskId p) =
     (if agentType \<in> set (listeners st) then handleAgentTaskProgress st agentType taskId p else st)"

subsection \<open>Submission\<close>

definition isSpace :: "char \<Rightarrow> bool" where
  "isSpace c = (c \<in> set [CHR '' '', CHR 0x09, CHR 0x0A, CHR 0x0B, CHR 0x0C, CHR 0x0D])"

definition isDigit :: "char \<Rightarrow> bool" where
  "isDigit c = (c \<in> set ''0123456789'')"

definition isWordChar :: "char \<Rightarrow> bool" where
  "isWordChar c =
     (c \<in> set ''abcdefghijklmnopqrstuvwxyzABCDEFGHIJKLMNOPQRSTUVWXYZ0123456789_'')"

text \<open>The regular expressions of \<^verbatim>\<open>containsSensitiveData\<close>, each written as the matcher it
  denotes. In \<^verbatim>\<open>kw\s*[:=]\s*\S+\<close> the classes that follow one another are disjoint, so the
  greedy match is the only one; \<open>i\<close> lowers the input first.\<close>

definition assignment_at :: "string \<Rightarrow> string \<Rightarrow> bool" where
  "assignment_at kw s =
     (startsWith s kw \<and>
      (case dropWhile isSpace (drop (length kw) s) of
         [] \<Rightarrow> False
       | c # rest \<Rightarrow> (c = CHR '':'' \<or> c = CHR ''='') \<and> dropWhile isSpace rest \<noteq> []))"

fun anywhere :: "(string \<Rightarrow> bool) \<Rightarrow> string \<Rightarrow> bool" where
  "anywhere P [] = P []"
| "anywhere P (c # cs) = (P (c # cs) \<or> anywhere P cs)"

fun digits :: "nat \<Rightarrow> string \<Rightarrow> string option" where
  "digits n s =
     (if n = 0 then Some s
      else case s of [] \<Rightarrow> None | c # cs \<Rightarrow> if isDigit c then digits (n - 1) cs else None)"

declare digits.simps [simp del]

definition opt_sep :: "string \<Rightarrow> string" where
  "opt_sep s = (case s of [] \<Rightarrow> [] | c # cs \<Rightarrow> if isSpace c \<or> c = CHR ''-'' then cs else c # cs)"

definition dash :: "string \<Rightarrow> string option" where
  "dash s = (case s of [] \<Rightarrow> None | c # cs \<Rightarrow> if c = CHR ''-'' then Some cs else None)"

definition at_boundary :: "string \<Rightarrow> bool" where
  "at_boundary s = (case s of [] \<Rightarrow> True | c # cs \<Rightarrow> \<not> isWordChar c)"

text \<open>\<^verbatim>\<open>\d{4}[\s-]?\d{4}[\s-]?\d{4}[\s-]?\d{4}\b\<close> and \<^verbatim>\<open>\d{3}-\d{2}-\d{4}\b\<close> at the head of
  a string.\<close>

definition card_at :: "string \<Rightarrow> bool" where
  "card_at s =
     (case Option.bind (Option.bind (Option.bind (digits 4 s)
              (\<lambda>s1. digits 4 (opt_sep s1)))
              (\<lambda>s2. digits 4 (opt_sep s2)))
              (\<lambda>s3. digits 4 (opt_sep s3)) of
        None \<Rightarrow> False
      | Some rest \<Rightarrow> at_boundary rest)"

definition ssn_at :: "string \<Rightarrow> bool" where
  "ssn_at s =
     (case Option.bind (Option.bind (Option.bind (Option.bind (digits 3 s) dash)
              (digits 2)) dash) (digits 4) of
        None \<Rightarrow> False
      | Some rest \<Rightarrow> at_boundary rest)"

text \<open>A match that must start at a word boundary: the flag says that the character before
  the head is not a word character.\<close>

fun after_boundary :: "(string \<Rightarrow> bool) \<Rightarrow> bool \<Rightarrow> string \<Rightarrow> bool" where
  "after_boundary P b [] = False"
| "after_boundary P b (c # cs) = ((b \<and> P (c # cs)) \<or> after_boundary P (\<not> isWordChar c) cs)"

definition containsSensitiveData :: "string \<Rightarrow> bool" where
  "containsSensitiveData inp =
     (anywhere (assignment_at ''password'') (toLowerCase inp) \<or>
      list_ex (\<lambda>kw. anywhere (assignment_at kw) (toLowerCase inp)) [''apikey'', ''api_key'', ''api-key''] \<or>
      anywhere (assignment_at ''token'') (toLowerCase inp) \<or>
      after_boundary card_at True inp \<or>
      after_boundary ssn_at True inp)"

definition performSecurityCheck :: "coordinator \<Rightarrow> string \<Rightarrow> context_bag \<Rightarrow> error + unit" where
  "performSecurityCheck st inp c =
     (case (case agents st ''security'' of
              None \<Rightarrow> Inr ()
            | Some securityAgent \<Rightarrow>
                (case analyzeRequest securityAgent inp c of
                   Inl e \<Rightarrow> Inl e
                 | Inr securityResult \<Rightarrow>
                     (case get_prop securityResult ''threatLevel'' of
                        Inl e \<Rightarrow> Inl e
                      | Inr level \<Rightarrow>
                          if level = JStr ''high'' then Inl ''Security threat detected''
                          else (case get_prop securityResult ''requiresAuthorization'' of
                                  Inl e \<Rightarrow> Inl e
                                | Inr req \<Rightarrow>
                                    if truthy req \<and> authorizationLevel c = JStr ''guest''
                                    then Inl ''Authorization required'' else Inr ())))) of
        Inl e \<Rightarrow> Inl e
      | Inr u \<Rightarrow> if containsSensitiveData inp then Inl ''Sensitive data detected'' else Inr ())"

definition createTaskPlan :: "coordinator \<Rightarrow> string \<Rightarrow> context_bag \<Rightarrow> error + plan" where
  "createTaskPlan st userInput c =
     (case agents st ''reasoning'' of
        Some reasoningAgent \<Rightarrow> analyzeIntent reasoningAgent userInput c
      | None \<Rightarrow>
          Inr \<lparr>intent = ''unknown'',
               steps = [\<lparr>agent = ''voice'', action = ''respond'',
                         parameters = JObj [(''message'', JStr ''I need more information to help with that.'')],
                         critical = False\<rparr>]\<rparr>)"

definition estimateTaskTime :: "plan \<Rightarrow> nat" where
  "estimateTaskTime taskPlan =
     min (foldl (\<lambda>total s.
                  total + (case agentConfig (agent s) of
                             None \<Rightarrow> 10000
                           | Some cfg \<Rightarrow> if timeout cfg = 0 then 10000 else timeout cfg))
            0 (steps taskPlan))
         taskTimeout"

definition classifyError :: "error \<Rightarrow> string" where
  "classifyError err =
     (if str_includes err ''Security'' then ''security''
      else if str_includes err ''Authorization'' then ''authorization''
      else if str_includes err ''Timeout'' then ''timeout''
      else if str_includes err ''Network'' then ''network''
      else ''unknown'')"

text \<open>The object \<^verbatim>\<open>processUserRequest\<close> returns: \<^verbatim>\<open>{taskId, status: 'accepted', message,
  estimatedTime}\<close> or \<^verbatim>\<open>{taskId, status: 'rejected', error, reason}\<close>.\<close>

datatype submission =
    Accepted string string nat
  | Rejected string error string

fun submission_status :: "submission \<Rightarrow> string" where
  "submission_status (Accepted i m e) = ''accepted''"
| "submission_status (Rejected i e c) = ''rejected''"

text \<open>\<^verbatim>\<open>generateTaskId()\<close> reads the clock and a random number: the identifier is a
  parameter. The new task object is stored at the next free reference. The call \<^verbatim>\<open>this.processTasks()\<close> is not awaited; the dispatch it starts is the
  transition \<open>processTasks\<close> below.\<close>

definition processUserRequest :: "coordinator \<Rightarrow> string \<Rightarrow> string \<Rightarrow> context_bag \<Rightarrow> submission \<times> coordinator" where
  "processUserRequest st taskId userInput c =
     (case performSecurityCheck st userInput c of
        Inl e \<Rightarrow> (Rejected taskId e (classifyError e), st)
      | Inr u \<Rightarrow>
          (case createTaskPlan st userInput c of
             Inl e \<Rightarrow> (Rejected taskId e (classifyError e), st)
           | Inr taskPlan \<Rightarrow>
               (let mainTask = \<lparr>task_id = taskId, task_type = ''user_request'',
                                 priority = taskPriorities_user_request, input = userInput, ctx = c,
                                 plan = taskPlan, status = Pending, created = now st,
                                 task_timeout = taskTimeout, started = None, completed = None,
                                 task_res = None, task_error = None, progress = JUndefined\<rparr>;
                    r = nextRef st;
                    st1 = addTask (st\<lparr>heap := (heap st)(r := mainTask), nextRef := Suc r\<rparr>) r
                in (Accepted taskId ''Request received and being processed'' (estimateTaskTime taskPlan),
                    st1))))"

subsection \<open>Dispatch\<close>

lemma taskQueue_emit [simp]: "taskQueue (emit e st) = taskQueue st"
  by (simp add: emit_def)

lemma taskQueue_update_task [simp]: "taskQueue (update_task r f st) = taskQueue st"
  by (simp add: update_task_def)

lemma taskQueue_confirmSensitiveOperation:
  "taskQueue (snd (confirmSensitiveOperation st r s)) = taskQueue st"
  by (simp add: confirmSensitiveOperation_def Let_def split: option.splits prod.splits sum.splits)

lemma taskQueue_invokeAgent: "taskQueue (snd (invokeAgent st a r s)) = taskQueue st"
  by (simp add: invokeAgent_def Let_def split: exec_outcome.splits)

lemma taskQueue_executeTaskStep: "taskQueue (snd (executeTaskStep st r s)) = taskQueue st"
proof -
  have c: "\<And>x st1. confirmSensitiveOperation st r s = (x, st1) \<Longrightarrow> taskQueue st1 = taskQueue st"
    using taskQueue_confirmSensitiveOperation [of st r s] by simp
  show ?thesis
    by (auto simp: executeTaskStep_def taskQueue_invokeAgent dest: c
        split: option.splits sum.splits bool.splits prod.splits)
qed

lemma taskQueue_executeTask_loop:
  "taskQueue (snd (executeTask_loop st r ss results)) = taskQueue st"
proof (induction ss arbitrary: st results)
  case Nil
  show ?case by simp
next
  case (Cons s ss)
  obtain x st1 where step: "executeTaskStep st r s = (x, st1)"
    by (cases "executeTaskStep st r s")
  then have "taskQueue st1 = taskQueue st"
    using taskQueue_executeTaskStep [of st r s] by simp
  with step Cons.IH show ?case
    by (cases x) simp_all
qed

lemma taskQueue_executeTask: "taskQueue (snd (executeTask st r)) = taskQueue st"
proof -
  let ?st1 = "update_task r (\<lambda>t. t\<lparr>status := Executing, started := Some (now st)\<rparr>) st"
  obtain x st2 where loop: "executeTask_loop ?st1 r (steps (plan (heap ?st1 r))) [] = (x, st2)"
    by (cases "executeTask_loop ?st1 r (steps (plan (heap ?st1 r))) []")
  then have "taskQueue st2 = taskQueue st"
    using taskQueue_executeTask_loop [of ?st1 r "steps (plan (heap ?st1 r))" "[]"] by simp
  with loop show ?thesis
    by (simp add: executeTask_def Let_def split: sum.splits)
qed

lemma taskQueue_handleTaskError [simp]: "taskQueue (handleTaskError st r e) = taskQueue st"
  by (simp add: handleTaskError_def)

lemma taskQueue_runTask: "taskQueue (runTask st r) = taskQueue st"
  using taskQueue_executeTask [of st r]
  by (cases "executeTask st r") (simp add: runTask_def split: sum.splits)

text \<open>The \<^verbatim>\<open>while\<close> loop of \<^verbatim>\<open>processTasks\<close>. It ends because nothing in \<^verbatim>\<open>executeTask\<close>
  puts a task into the queue.\<close>

function processTasks_loop :: "coordinator \<Rightarrow> coordinator" where
  "processTasks_loop st =
     (case taskQueue st of
        [] \<Rightarrow> st
      | r # q \<Rightarrow>
          if getActiveTaskCount st < coordinator_maxConcurrentTasks
          then processTasks_loop (runTask (st\<lparr>taskQueue := q\<rparr>) r)
          else st)"
  by pat_completeness auto
termination
  by (relation "measure (\<lambda>st. length (taskQueue st))") (auto simp: taskQueue_runTask)

declare processTasks_loop.simps [simp del]

definition processTasks :: "coordinator \<Rightarrow> coordinator" where
  "processTasks st =
     (if isProcessing st \<or> taskQueue st = [] then st
      else (processTasks_loop (st\<lparr>isProcessing := True\<rparr>))\<lparr>isProcessing := False\<rparr>)"

text \<open>One iteration of that loop without the capacity test: the head of the queue is
  shifted and run. A history of the dispatcher is a list of submissions (\<^verbatim>\<open>addTask\<close> of a
  task object) and dispatches; \<open>run_ops\<close> also collects the tasks in the order in which
  they were dispatched.\<close>

definition dispatch :: "coordinator \<Rightarrow> nat option \<times> coordinator" where
  "dispatch st = (case shift st of (None, st1) \<Rightarrow> (None, st1) | (Some r, st1) \<Rightarrow> (Some r, runTask st1 r))"

datatype queue_op = Submit nat | Dispatch

fun run_ops :: "queue_op list \<Rightarrow> coordinator \<times> nat list \<Rightarrow> coordinator \<times> nat list" where
  "run_ops [] x = x"
| "run_ops (Submit r # ops) (st, d) = run_ops ops (addTask st r, d)"
| "run_ops (Dispatch # ops) (st, d) =
     (case dispatch st of (None, st1) \<Rightarrow> run_ops ops (st1, d) | (Some r, st1) \<Rightarrow> run_ops ops (st1, d @ [r]))"

fun submitted :: "queue_op list \<Rightarrow> nat list" where
  "submitted [] = []"
| "submitted (Submit r # ops) = r # submitted ops"
| "submitted (Dispatch # ops) = submitted ops"

subsection \<open>Reading the event log\<close>

text \<open>The number of invocations of a kind that are in flight after a sequence of events,
  and the largest number any prefix of it reaches, counting from \<open>c\<close>.\<close>

fun track :: "string \<Rightarrow> nat \<Rightarrow> event \<Rightarrow> nat" where
  "track k c (AgentInvoked k' a) = (if k' = k then Suc c else c)"
| "track k c (AgentSettled k') = (if k' = k then c - 1 else c)"
| "track k c e = c"


fun peak_from :: "string \<Rightarrow> nat \<Rightarrow> event list \<Rightarrow> nat" where
  "peak_from k c [] = c"
| "peak_from k c (e # es) = max c (peak_from k (track k c e) es)"

definition maxConcurrent :: "string \<Rightarrow> nat" where
  "maxConcurrent k = (case agentConfig k of None \<Rightarrow> 0 | Some config \<Rightarrow> maxConcurrentTasks config)"

definition calm :: "string \<Rightarrow> event list \<Rightarrow> bool" where
  "calm k evs = (foldl (track k) 0 evs = 0 \<and> peak_from k 0 evs \<le> maxConcurrent k)"

text \<open>Whether the security agent's answer to a confirmation request of the step is a
  grant, and the events one call of \<^verbatim>\<open>executeTaskStep\<close> adds to the log.\<close>

definition confirmationGranted :: "coordinator \<Rightarrow> nat \<Rightarrow> step \<Rightarrow> bool" where
  "confirmationGranted st r s =
     (case agents st ''security'' of
        None \<Rightarrow> False
      | Some securityAgent \<Rightarrow>
          (case fst (requestConfirmation securityAgent (heap st r) s) of
             Inl e \<Rightarrow> False
           | Inr confirmation \<Rightarrow>
               (case get_prop confirmation ''confirmed'' of Inl e \<Rightarrow> False | Inr v \<Rightarrow> truthy v)))"

definition step_events :: "coordinator \<Rightarrow> nat \<Rightarrow> step \<Rightarrow> event list" where
  "step_events st r s =
     (if agents st (agent s) \<noteq> None \<and> isAgentAvailable st (agent s) = Inr True then
        (if isSensitiveOperation s \<and> \<not> alreadyConfirmed (heap st r) s then
           (if agents st ''security'' \<noteq> None then
              ConfirmationRequested (task_id (heap st r)) s #
                (if confirmationGranted st r s
                 then [AgentInvoked (agent s) (action s), AgentSettled (agent s)] else [])
            else [])
         else [AgentInvoked (agent s) (action s), AgentSettled (agent s)])
      else [])"

text \<open>Whether \<^verbatim>\<open>generateUnifiedResponse\<close> gets a response tone: there is no emotion agent,
  or its \<^verbatim>\<open>determineResponseTone\<close> returns.\<close>

definition toneAvailable :: "coordinator \<Rightarrow> task \<Rightarrow> step_outcome list \<Rightarrow> bool" where
  "toneAvailable st t results =
     (case agents st ''emotion'' of
        None \<Rightarrow> True
      | Some emotionAgent \<Rightarrow>
          (case determineResponseTone emotionAgent (userEmotion (ctx t)) results of
             Inl e \<Rightarrow> False | Inr tone \<Rightarrow> True))"

text \<open>What a step may change: the context of its task and the event log.\<close>

definition step_frame :: "coordinator \<Rightarrow> nat \<Rightarrow> coordinator \<Rightarrow> bool" where
  "step_frame st r st' =
     (\<exists>c evs. st' = st\<lparr>heap := (heap st)(r := (heap st r)\<lparr>ctx := c\<rparr>), events := events st @ evs\<rparr>)"


subsection \<open>Example values\<close>

definition example_agent :: "jsval \<Rightarrow> jsval \<Rightarrow> agent_instance" where
  "example_agent v answer =
     \<lparr>execute = (\<lambda>a p c. Resolves v),
      requestConfirmation = (\<lambda>t s. (Inr answer, ctx t)),
      analyzeRequest = (\<lambda>i c. Inr (JObj [(''threatLevel'', JStr ''low'')])),
      analyzeIntent = (\<lambda>i c. Inr \<lparr>intent = ''unknown'', steps = []\<rparr>),
      determineResponseTone = (\<lambda>e rs. Inr ''professional'')\<rparr>"

definition example_context :: context_bag where
  "example_context = \<lparr>confirmedOperations = None, allowPartialFailure = JUndefined,
     authorizationLevel = JStr ''user'', userEmotion = JStr ''neutral''\<rparr>"

definition example_task :: "string \<Rightarrow> int \<Rightarrow> step list \<Rightarrow> task" where
  "example_task i p ss =
     \<lparr>task_id = i, task_type = ''user_request'', priority = p, input = '''', ctx = example_context,
      plan = \<lparr>intent = ''unknown'', steps = ss\<rparr>, status = Pending, created = 0,
      task_timeout = taskTimeout, started = None, completed = None, task_res = None,
      task_error = None, progress = JUndefined\<rparr>"

definition init_coordinator :: coordinator where
  "init_coordinator =
     \<lparr>agents = Map.empty, agentCapabilities = Map.empty, heap = (\<lambda>r. example_task '''' 0 []),
      activeTasks = [], taskQueue = [], taskResults = [], isProcessing = False, events = [],
      now = 0, nextRef = 0, listeners = [], activeServices = {}\<rparr>"

definition voice_step :: step where
  "voice_step = \<lparr>agent = ''voice'', action = ''respond'', parameters = JObj [], critical = False\<rparr>"

definition queue_example :: coordinator where
  "queue_example =
     init_coordinator\<lparr>heap := (\<lambda>r. example_task (if r = 1 then ''b'' else if r = 0 then ''a'' else ''c'')
                                     (if r = 1 then 0 else 2) [voice_step])\<rparr>"

definition failing_planner :: agent_instance where
  "failing_planner = (example_agent JNull JNull)\<lparr>analyzeIntent := (\<lambda>i c. Inl ''Network unreachable'')\<rparr>"

definition strict_security :: agent_instance where
  "strict_security =
     (example_agent JNull (JObj [(''confirmed'', JBool False)]))
       \<lparr>analyzeRequest := (\<lambda>i c. Inr (JObj [(''threatLevel'', JStr ''high'')]))\<rparr>"

definition with_agents :: "(string \<times> agent_instance) list \<Rightarrow> coordinator \<Rightarrow> coordinator" where
  "with_agents as st = st\<lparr>agents := map_of as\<rparr>"

definition reasoning_step :: step where
  "reasoning_step = \<lparr>agent = ''reasoning'', action = ''analyze'',
     parameters = JObj [(''input'', JStr ''lights'')], critical = False\<rparr>"

definition partial_example :: coordinator where
  "partial_example =
     addTask ((with_agents [(''reasoning'', example_agent (JObj [(''response'', JStr ''Done.'')]) JNull),
                            (''voice'', example_agent JNull JNull)] init_coordinator)
               \<lparr>heap := (\<lambda>r. example_task ''task_1'' 2 [reasoning_step, voice_step, reasoning_step])\<rparr>) 0"

definition sweep_example :: coordinator where
  "sweep_example =
     init_coordinator
       \<lparr>heap := (\<lambda>r. if r = 0 then example_task ''a'' 2 [voice_step]
                      else if r = 1 then (example_task ''b'' 2 [voice_step])\<lparr>status := Completed, completed := Some 1000\<rparr>
                      else (example_task ''c'' 2 [voice_step])\<lparr>status := Failed, completed := Some 1001\<rparr>),
         activeTasks := [(''a'', 0), (''b'', 1), (''c'', 2)],
         now := 301001\<rparr>"

definition example_state :: "(string \<times> agent_instance) list \<Rightarrow> step list \<Rightarrow> coordinator" where
  "example_state as ss =
     addTask ((with_agents as init_coordinator)\<lparr>heap := (\<lambda>r. example_task ''task_1'' 2 ss)\<rparr>) 0"

definition delete_step :: step where
  "delete_step = \<lparr>agent = ''smart_home'', action = ''delete_schedule'',
     parameters = JObj [(''device'', JStr ''thermostat'')], critical = False\<rparr>"

definition respond_step :: step where
  "respond_step = \<lparr>agent = ''smart_home'', action = ''respond'',
     parameters = JObj [(''message'', JStr ''ok'')], critical = False\<rparr>"

definition granting_security :: agent_instance where
  "granting_security = example_agent JNull (JObj [(''confirmed'', JBool True)])"

definition home_agent :: agent_instance where
  "home_agent = example_agent (JObj [(''response'', JStr ''Done.'')]) JNull"

definition finishing_agent :: agent_instance where
  "finishing_agent = example_agent (JObj [(''complete'', JBool True), (''response'', JStr ''Done.'')]) JNull"

definition critical_voice_step :: step where
  "critical_voice_step = voice_step\<lparr>critical := True\<rparr>"

text \<open>The state the first two statements of \<^verbatim>\<open>executeTask\<close> leave.\<close>

definition started_state :: "coordinator \<Rightarrow> nat \<Rightarrow> coordinator" where
  "started_state st r = update_task r (\<lambda>t. t\<lparr>status := Executing, started := Some (now st)\<rparr>) st"

definition success_example :: coordinator where
  "success_example = example_state [(''reasoning'', home_agent)] [reasoning_step, reasoning_step]"

definition failure_example :: coordinator where
  "failure_example = example_state [] [voice_step, voice_step]"

text \<open>A queued task that the agent registered as \<^verbatim>\<open>smart_home\<close> reports failed at time
  1000, and the state in which \<^verbatim>\<open>processTasks\<close> has shifted it and \<^verbatim>\<open>executeTask\<close> has
  marked it executing at time 300000.\<close>

definition stale_queued :: coordinator where
  "stale_queued =
     agentEmits
       (addTask (projr (registerAgent
                   (init_coordinator\<lparr>heap := (\<lambda>r. example_task ''task_1'' 2 [respond_step]), now := 1000\<rparr>)
                   ''smart_home'' home_agent)) 0)
       ''smart_home'' (EmitTaskFailed ''task_1'' ''device offline'')"

definition stale_executing :: coordinator where
  "stale_executing = started_state (snd (shift (stale_queued\<lparr>now := 300000\<rparr>))) 0"

text \<open>The property of a store that its pending and executing tasks carry no completion
  time.\<close>

definition unstamped :: "coordinator \<Rightarrow> bool" where
  "unstamped st =
     (\<forall>(k, r) \<in> set (activeTasks st).
        status (heap st r) = Pending \<or> status (heap st r) = Executing \<longrightarrow> completed (heap st r) = None)"

text \<open>The store invariant: in addition, every reference in the store is below the next
  free one.\<close>

definition store_ok :: "coordinator \<Rightarrow> bool" where
  "store_ok st = (unstamped st \<and> (\<forall>(k, r) \<in> set (activeTasks st). r < nextRef st))"

section \<open>Properties\<close>

subsection \<open>What a task execution leaves unchanged\<close>

lemma heap_emit [simp]: "heap (emit e st) = heap st"
  by (simp add: emit_def)

lemma heap_update_task [simp]: "heap (update_task r f st) q = (if q = r then f (heap st r) else heap st q)"
  by (simp add: update_task_def)

lemma priority_confirmSensitiveOperation:
  "priority (heap (snd (confirmSensitiveOperation st r s)) q) = priority (heap st q)"
  by (simp add: confirmSensitiveOperation_def Let_def split: option.splits prod.splits sum.splits)

lemma priority_invokeAgent: "priority (heap (snd (invokeAgent st a r s)) q) = priority (heap st q)"
  by (simp add: invokeAgent_def Let_def split: exec_outcome.splits)

lemma priority_executeTaskStep: "priority (heap (snd (executeTaskStep st r s)) q) = priority (heap st q)"
proof -
  have c: "\<And>x st1. confirmSensitiveOperation st r s = (x, st1) \<Longrightarrow> priority (heap st1 q) = priority (heap st q)"
    using priority_confirmSensitiveOperation [of st r s q] by simp
  show ?thesis
    by (auto simp: executeTaskStep_def priority_invokeAgent dest: c
        split: option.splits sum.splits bool.splits prod.splits)
qed

lemma priority_executeTask_loop:
  "priority (heap (snd (executeTask_loop st r ss results)) q) = priority (heap st q)"
proof (induction ss arbitrary: st results)
  case Nil
  show ?case by simp
next
  case (Cons s ss)
  obtain x st1 where step: "executeTaskStep st r s = (x, st1)"
    by (cases "executeTaskStep st r s")
  then have "priority (heap st1 q) = priority (heap st q)"
    using priority_executeTaskStep [of st r s q] by simp
  with step Cons.IH show ?case
    by (cases x) simp_all
qed

lemma priority_executeTask: "priority (heap (snd (executeTask st r)) q) = priority (heap st q)"
proof -
  let ?st1 = "update_task r (\<lambda>t. t\<lparr>status := Executing, started := Some (now st)\<rparr>) st"
  obtain x st2 where loop: "executeTask_loop ?st1 r (steps (plan (heap ?st1 r))) [] = (x, st2)"
    by (cases "executeTask_loop ?st1 r (steps (plan (heap ?st1 r))) []")
  then have "priority (heap st2 q) = priority (heap st q)"
    using priority_executeTask_loop [of ?st1 r "steps (plan (heap ?st1 r))" "[]" q]
    by simp
  with loop show ?thesis
    by (auto simp: executeTask_def Let_def split: sum.splits)
qed

lemma priority_runTask: "priority (heap (runTask st r) q) = priority (heap st q)"
  using priority_executeTask [of st r q]
  by (cases "executeTask st r") (auto simp: runTask_def handleTaskError_def split: sum.splits)

lemma heap_addTask [simp]: "heap (addTask st r) = heap st"
  by (simp add: addTask_def)

lemma dispatch_cases:
  "dispatch st = (x, st1) \<Longrightarrow>
   (taskQueue st = [] \<and> x = None \<and> taskQueue st1 = [] \<or>
    (\<exists>r. x = Some r \<and> taskQueue st = r # taskQueue st1)) \<and>
   (\<forall>q. priority (heap st1 q) = priority (heap st q))"
  by (auto simp: dispatch_def shift_def taskQueue_runTask priority_runTask split: list.splits)

lemma run_ops_invariant:
  "run_ops ops (st, d) = (st', d') \<Longrightarrow>
   sorted (map (\<lambda>q. priority (heap st q)) (taskQueue st)) \<Longrightarrow>
   (\<forall>q. priority (heap st' q) = priority (heap st q)) \<and>
   sorted (map (\<lambda>q. priority (heap st q)) (taskQueue st')) \<and>
   (\<forall>p. filter (\<lambda>r. priority (heap st r) = p) (d' @ taskQueue st') =
        filter (\<lambda>r. priority (heap st r) = p) (d @ taskQueue st @ submitted ops))"
proof (induction ops "(st, d)" arbitrary: st d rule: run_ops.induct)
  case 1
  then show ?case by simp
next
  case (2 r ops st d)
  let ?f = "\<lambda>q. priority (heap st q)"
  have q: "taskQueue (addTask st r) = sort_key ?f (taskQueue st @ [r])"
    by (simp add: addTask_def)
  from 2 have run: "run_ops ops (addTask st r, d) = (st', d')" by simp
  have "sorted (map (\<lambda>q. priority (heap (addTask st r) q)) (taskQueue (addTask st r)))"
    unfolding q by simp
  from "2.hyps" [OF run this] have ih: "\<And>q. priority (heap st' q) = priority (heap st q)"
    "sorted (map ?f (taskQueue st'))"
    "\<And>p. filter (\<lambda>r. ?f r = p) (d' @ taskQueue st') =
        filter (\<lambda>r. ?f r = p) (d @ taskQueue (addTask st r) @ submitted ops)"
    by simp_all
  have "\<And>p. filter (\<lambda>x. ?f x = p) (taskQueue (addTask st r)) = filter (\<lambda>x. ?f x = p) (taskQueue st @ [r])"
    unfolding q by (rule sort_key_stable)
  with ih show ?case by simp
next
  case (3 ops st d)
  let ?f = "\<lambda>q. priority (heap st q)"
  obtain x st1 where dsp: "dispatch st = (x, st1)" by (cases "dispatch st")
  note dc = dispatch_cases [OF dsp]
  then have p [simp]: "\<And>q. priority (heap st1 q) = priority (heap st q)" by simp
  show ?case
  proof (cases x)
    case None
    with dc have e: "taskQueue st = []" "taskQueue st1 = []" by auto
    from 3 dsp None have run: "run_ops ops (st1, d) = (st', d')" by simp
    have "sorted (map (\<lambda>q. priority (heap st1 q)) (taskQueue st1))" by (simp add: e)
    from "3.hyps"(1) [OF dsp [symmetric] None run this] show ?thesis
      by (simp add: e)
  next
    case (Some r)
    with dc have e: "taskQueue st = r # taskQueue st1" by auto
    from 3 dsp Some have run: "run_ops ops (st1, d @ [r]) = (st', d')" by simp
    have "sorted (map (\<lambda>q. priority (heap st1 q)) (taskQueue st1))"
      using "3.prems"(2) by (simp add: e)
    from "3.hyps"(2) [OF dsp [symmetric] Some run this] show ?thesis
      by (simp add: e)
  qed
qed


subsection \<open>Queue order\<close>

text \<open>
  C3. Whatever the history of submissions and dispatches from an empty queue, the pending
  queue is ordered by ascending priority, and for every priority the tasks of that
  priority were dispatched, and then wait in the queue, in the order in which they were
  submitted: first in, first out within a priority.
\<close>

theorem queue_priority_fifo:
  assumes "taskQueue st = []" and "run_ops ops (st, []) = (st', d)"
  shows "sorted (map (\<lambda>q. priority (heap st' q)) (taskQueue st')) \<and>
         (\<forall>p. filter (\<lambda>r. priority (heap st' r) = p) (d @ taskQueue st') =
              filter (\<lambda>r. priority (heap st' r) = p) (submitted ops))"
  using run_ops_invariant [OF assms(2)] assms(1) by simp

theorem queue_priority_fifo_witness:
  "snd (run_ops [Submit 0, Submit 1, Submit 2, Dispatch, Dispatch] (queue_example, [])) = [1, 0] \<and>
   taskQueue (fst (run_ops [Submit 0, Submit 1, Submit 2, Dispatch, Dispatch] (queue_example, []))) = [2] \<and>
   sorted (map (\<lambda>q. priority (heap (fst (run_ops [Submit 0, Submit 1, Submit 2, Dispatch, Dispatch]
                                              (queue_example, []))) q))
             (taskQueue (fst (run_ops [Submit 0, Submit 1, Submit 2, Dispatch, Dispatch]
                                (queue_example, []))))) \<and>
   (\<forall>p. filter (\<lambda>r. priority (heap (fst (run_ops [Submit 0, Submit 1, Submit 2, Dispatch, Dispatch]
                                              (queue_example, []))) r) = p)
          (snd (run_ops [Submit 0, Submit 1, Submit 2, Dispatch, Dispatch] (queue_example, [])) @
           taskQueue (fst (run_ops [Submit 0, Submit 1, Submit 2, Dispatch, Dispatch]
                             (queue_example, [])))) =
        filter (\<lambda>r. priority (heap (fst (run_ops [Submit 0, Submit 1, Submit 2, Dispatch, Dispatch]
                                              (queue_example, []))) r) = p)
          (submitted [Submit 0, Submit 1, Submit 2, Dispatch, Dispatch]))"
proof -
  let ?ops = "[Submit 0, Submit 1, Submit 2, Dispatch, Dispatch]"
  have run: "snd (run_ops ?ops (queue_example, [])) = [1, 0] \<and>
             taskQueue (fst (run_ops ?ops (queue_example, []))) = [2]"
    by (simp add: queue_example_def init_coordinator_def example_task_def example_context_def
        voice_step_def addTask_def dispatch_def shift_def runTask_def executeTask_def
        executeTaskStep_def canContinueOnError_def compileTaskResults_def generateUnifiedResponse_def
        classify_def generateFailureResponse_def update_task_def emit_def handleTaskError_def Let_def)
  have empty: "taskQueue queue_example = []"
    by (simp add: queue_example_def init_coordinator_def)
  have pair: "run_ops ?ops (queue_example, []) =
          (fst (run_ops ?ops (queue_example, [])), snd (run_ops ?ops (queue_example, [])))"
    by simp
  from queue_priority_fifo [OF empty pair] run show ?thesis
    by blast
qed

subsection \<open>Agent registry\<close>

text \<open>
  C9, as the code has it. \<^verbatim>\<open>registerAgent\<close> has no check for a kind that is already
  registered: after a successful registration of a kind, a second call with the same
  kind succeeds as well and replaces the registered instance by the new one; the
  registrations of the other kinds stay as they were.
\<close>

theorem registerAgent_replaces:
  "registerAgent st k a = Inr st1 \<Longrightarrow>
   \<exists>st2. registerAgent st1 k b = Inr st2 \<and> agents st2 k = Some b \<and>
         (\<forall>k'. k' \<noteq> k \<longrightarrow> agents st2 k' = agents st1 k')"
  by (auto simp: registerAgent_def split: option.splits)

theorem registerAgent_replaces_witness:
  "\<exists>st2. registerAgent (projr (registerAgent init_coordinator ''voice'' (example_agent (JStr ''A'') JNull)))
            ''voice'' (example_agent (JStr ''B'') JNull) = Inr st2 \<and>
         agents st2 ''voice'' = Some (example_agent (JStr ''B'') JNull) \<and>
         (\<forall>k'. k' \<noteq> ''voice'' \<longrightarrow> agents st2 k' = 
            agents (projr (registerAgent init_coordinator ''voice'' (example_agent (JStr ''A'') JNull))) k')"
  using registerAgent_replaces [of init_coordinator "''voice''" "example_agent (JStr ''A'') JNull"
      "projr (registerAgent init_coordinator ''voice'' (example_agent (JStr ''A'') JNull))"
      "example_agent (JStr ''B'') JNull"]
  by (simp add: registerAgent_def agentConfig_def)

theorem registerAgent_duplicate_counterexample:
  "\<not> isl (registerAgent (projr (registerAgent init_coordinator ''voice'' (example_agent (JStr ''A'') JNull)))
            ''voice'' (example_agent (JStr ''B'') JNull)) \<and>
   map_option (\<lambda>a. execute a ''respond'' JNull example_context)
     (agents (projr (registerAgent init_coordinator ''voice'' (example_agent (JStr ''A'') JNull))) ''voice'')
     = Some (Resolves (JStr ''A'')) \<and>
   map_option (\<lambda>a. execute a ''respond'' JNull example_context)
     (agents (projr (registerAgent (projr (registerAgent init_coordinator ''voice'' (example_agent (JStr ''A'') JNull)))
            ''voice'' (example_agent (JStr ''B'') JNull))) ''voice'')
     = Some (Resolves (JStr ''B''))"
  by (simp add: registerAgent_def agentConfig_def example_agent_def init_coordinator_def)

subsection \<open>Evaluation of the examples\<close>

lemmas step_defs =
  executeTask_def executeTaskStep_def isAgentAvailable_def getAgentActiveTasks_def
  agentConfig_def isSensitiveOperation_def sensitiveActions_def toLowerCase_def toLowerChar_def
  confirmSensitiveOperation_def alreadyConfirmed_def invokeAgent_def canContinueOnError_def
  outcome_prop_def compileTaskResults_def generateUnifiedResponse_def classify_def
  generateSuccessResponse_def generatePartialSuccessResponse_def generateFailureResponse_def
  update_task_def emit_def Let_def

lemmas example_defs =
  init_coordinator_def example_task_def example_context_def example_agent_def with_agents_def
  voice_step_def reasoning_step_def addTask_def

lemma string_of_nat_digit: "n < 10 \<Longrightarrow> string_of_nat n = [digit_char n]"
  by (simp add: string_of_nat.simps)

subsection \<open>Submission\<close>

text \<open>
  C7, as the code has it. \<^verbatim>\<open>processUserRequest\<close> always returns an object. The object is a
  rejection, with the reason \<^verbatim>\<open>classifyError\<close> gives for the error, when the security and
  privacy checks throw and also when they pass and the creation of the task plan throws;
  it is an acceptance with the task identifier and the estimated time when the checks
  pass and the plan is created.
\<close>

theorem processUserRequest_outcome:
  "(\<forall>e. performSecurityCheck st inp c = Inl e \<longrightarrow>
        fst (processUserRequest st tid inp c) = Rejected tid e (classifyError e)) \<and>
   (\<forall>e. performSecurityCheck st inp c = Inr () \<and> createTaskPlan st inp c = Inl e \<longrightarrow>
        fst (processUserRequest st tid inp c) = Rejected tid e (classifyError e)) \<and>
   (\<forall>p. performSecurityCheck st inp c = Inr () \<and> createTaskPlan st inp c = Inr p \<longrightarrow>
        fst (processUserRequest st tid inp c) =
          Accepted tid ''Request received and being processed'' (estimateTaskTime p)) \<and>
   submission_status (fst (processUserRequest st tid inp c)) \<in> {''accepted'', ''rejected''}"
  by (auto simp: processUserRequest_def Let_def split: sum.splits)

theorem processUserRequest_outcome_witness:
  "fst (processUserRequest (with_agents [(''security'', strict_security)] init_coordinator)
          ''task_1'' ''turn on the lights'' example_context)
     = Rejected ''task_1'' ''Security threat detected'' ''security'' \<and>
   fst (processUserRequest init_coordinator ''task_2'' ''turn on the lights'' example_context)
     = Accepted ''task_2'' ''Request received and being processed'' 8000"
proof -
  have clean: "containsSensitiveData ''turn on the lights'' = False"
    by (simp add: containsSensitiveData_def toLowerCase_def toLowerChar_def assignment_at_def
        card_at_def ssn_at_def digits.simps isDigit_def isWordChar_def isSpace_def)
  have a: "performSecurityCheck (with_agents [(''security'', strict_security)] init_coordinator)
             ''turn on the lights'' example_context = Inl ''Security threat detected''"
    by (simp add: performSecurityCheck_def with_agents_def init_coordinator_def strict_security_def
        example_agent_def)
  have b: "performSecurityCheck init_coordinator ''turn on the lights'' example_context = Inr () \<and>
           createTaskPlan init_coordinator ''turn on the lights'' example_context =
             Inr \<lparr>intent = ''unknown'',
                  steps = [\<lparr>agent = ''voice'', action = ''respond'',
                            parameters = JObj [(''message'', JStr ''I need more information to help with that.'')],
                            critical = False\<rparr>]\<rparr>"
    by (simp add: performSecurityCheck_def createTaskPlan_def init_coordinator_def clean)
  have c: "classifyError ''Security threat detected'' = ''security''"
    by (simp add: classifyError_def)
  have d: "estimateTaskTime \<lparr>intent = ''unknown'',
                  steps = [\<lparr>agent = ''voice'', action = ''respond'',
                            parameters = JObj [(''message'', JStr ''I need more information to help with that.'')],
                            critical = False\<rparr>]\<rparr> = 8000"
    by (simp add: estimateTaskTime_def agentConfig_def taskTimeout_def)
  from processUserRequest_outcome
         [of "with_agents [(''security'', strict_security)] init_coordinator"
             "''turn on the lights''" example_context "''task_1''"] a c
  have 1: "fst (processUserRequest (with_agents [(''security'', strict_security)] init_coordinator)
          ''task_1'' ''turn on the lights'' example_context)
     = Rejected ''task_1'' ''Security threat detected'' ''security''"
    by simp
  from processUserRequest_outcome
         [of init_coordinator "''turn on the lights''" example_context "''task_2''"] b d
  have 2: "fst (processUserRequest init_coordinator ''task_2'' ''turn on the lights'' example_context)
     = Accepted ''task_2'' ''Request received and being processed'' 8000"
    by simp
  from 1 2 show ?thesis by simp
qed

lemma processUserRequest_clean: "containsSensitiveData ''turn on the lights'' = False"
  by (simp add: containsSensitiveData_def toLowerCase_def toLowerChar_def assignment_at_def
      card_at_def ssn_at_def digits.simps isDigit_def isWordChar_def isSpace_def)

theorem processUserRequest_counterexample:
  "performSecurityCheck (with_agents [(''reasoning'', failing_planner)] init_coordinator)
     ''turn on the lights'' example_context = Inr () \<and>
   fst (processUserRequest (with_agents [(''reasoning'', failing_planner)] init_coordinator)
          ''task_1'' ''turn on the lights'' example_context)
     = Rejected ''task_1'' ''Network unreachable'' ''network''"
  by (simp add: processUserRequest_def performSecurityCheck_def createTaskPlan_def processUserRequest_clean
      with_agents_def init_coordinator_def failing_planner_def example_agent_def classifyError_def)

lemmas more_example_defs =
  example_state_def delete_step_def respond_step_def granting_security_def home_agent_def
  finishing_agent_def started_state_def strict_security_def runTask_def handleTaskError_def

subsection \<open>The event log of an execution\<close>




lemma calm_Nil [simp]: "calm k []"
  by (simp add: calm_def)


lemma calm_other [simp]:
  "calm k [TaskCompletedEvent i]" "calm k [TaskFailedEvent i e]" "calm k [ConfirmationRequested i s]"
  by (simp_all add: calm_def)


lemma events_invokeAgent:
  "events (snd (invokeAgent st a r s)) = events st @ [AgentInvoked (agent s) (action s), AgentSettled (agent s)]"
  by (simp add: invokeAgent_def Let_def emit_def split: exec_outcome.splits)

lemma events_confirmSensitiveOperation:
  "events (snd (confirmSensitiveOperation st r s)) =
     events st @ (if \<not> alreadyConfirmed (heap st r) s \<and> agents st ''security'' \<noteq> None
                  then [ConfirmationRequested (task_id (heap st r)) s] else [])"
  by (auto simp: confirmSensitiveOperation_def Let_def emit_def update_task_def
      split: option.splits prod.splits sum.splits)

lemma fst_confirmSensitiveOperation:
  "\<not> alreadyConfirmed (heap st r) s \<Longrightarrow>
   (fst (confirmSensitiveOperation st r s) = Inr True) = confirmationGranted st r s"
  by (auto simp: confirmSensitiveOperation_def confirmationGranted_def Let_def
      split: option.splits prod.splits sum.splits)

lemma events_executeTaskStep:
  "events (snd (executeTaskStep st r s)) = events st @ step_events st r s"
proof (cases "agents st (agent s) \<noteq> None \<and> isAgentAvailable st (agent s) = Inr True")
  case False
  then show ?thesis
    by (auto simp: executeTaskStep_def step_events_def split: option.splits sum.splits bool.splits)
next
  case avail: True
  then obtain a where a: "agents st (agent s) = Some a" by auto
  show ?thesis
  proof (cases "isSensitiveOperation s")
    case False
    with avail a show ?thesis
      by (simp add: executeTaskStep_def step_events_def events_invokeAgent)
  next
    case sens: True
    obtain x st1 where c: "confirmSensitiveOperation st r s = (x, st1)"
      by (cases "confirmSensitiveOperation st r s")
    from c have ev: "events st1 = events st @ (if \<not> alreadyConfirmed (heap st r) s \<and> agents st ''security'' \<noteq> None
                  then [ConfirmationRequested (task_id (heap st r)) s] else [])"
      using events_confirmSensitiveOperation [of st r s] by simp
    show ?thesis
    proof (cases "alreadyConfirmed (heap st r) s")
      case True
      with c have "x = Inr True" "st1 = st"
        by (simp_all add: confirmSensitiveOperation_def)
      with avail a sens c True show ?thesis
        by (simp add: executeTaskStep_def step_events_def events_invokeAgent)
    next
      case False
      with c have g: "(x = Inr True) = confirmationGranted st r s"
        using fst_confirmSensitiveOperation [of st r s] by simp
      have ng: "agents st ''security'' = None \<Longrightarrow> \<not> confirmationGranted st r s"
        by (simp add: confirmationGranted_def)
      from avail a sens c False ev g ng show ?thesis
        by (cases x; cases "projr x")
           (auto simp: executeTaskStep_def step_events_def events_invokeAgent)
    qed
  qed
qed



lemma step_frame_refl: "step_frame st r st"
  unfolding step_frame_def
  by (rule exI [of _ "ctx (heap st r)"], rule exI [of _ "[]"]) simp

lemma step_frame_trans: "step_frame st r st1 \<Longrightarrow> step_frame st1 r st2 \<Longrightarrow> step_frame st r st2"
  unfolding step_frame_def
  by (elim exE) (simp, blast)

lemma step_frame_emit: "step_frame st r (emit e st)"
  unfolding step_frame_def emit_def
  by (rule exI [of _ "ctx (heap st r)"], rule exI [of _ "[e]"]) simp

lemma step_frame_ctx: "step_frame st r (update_task r (\<lambda>t. t\<lparr>ctx := c\<rparr>) st)"
  unfolding step_frame_def update_task_def
  by (rule exI [of _ c], rule exI [of _ "[]"]) simp

lemma step_frame_invokeAgent: "step_frame st r (snd (invokeAgent st a r' s))"
proof -
  have "step_frame st r (emit (AgentSettled (agent s)) (emit (AgentInvoked (agent s) (action s)) st))"
    by (rule step_frame_trans [OF step_frame_emit step_frame_emit])
  then show ?thesis
    by (simp add: invokeAgent_def Let_def split: exec_outcome.splits)
qed

lemma step_frame_confirmSensitiveOperation: "step_frame st r (snd (confirmSensitiveOperation st r s))"
proof -
  have "\<And>e c. step_frame st r (update_task r (\<lambda>t. t\<lparr>ctx := c\<rparr>) (emit e st))"
    by (rule step_frame_trans [OF step_frame_emit step_frame_ctx])
  then show ?thesis
    by (auto simp: confirmSensitiveOperation_def Let_def step_frame_refl
        split: option.splits prod.splits sum.splits)
qed

lemma step_frame_executeTaskStep: "step_frame st r (snd (executeTaskStep st r s))"
proof -
  have c: "\<And>x st1 a. confirmSensitiveOperation st r s = (x, st1) \<Longrightarrow>
             step_frame st r st1 \<and> step_frame st r (snd (invokeAgent st1 a r s))"
    using step_frame_confirmSensitiveOperation [of st r s]
    by (auto intro: step_frame_trans step_frame_invokeAgent)
  show ?thesis
    by (auto simp: executeTaskStep_def step_frame_refl step_frame_invokeAgent dest: c
        split: option.splits sum.splits bool.splits prod.splits)
qed

lemma step_frame_agents: "step_frame st r st' \<Longrightarrow> agents st' = agents st"
  by (auto simp: step_frame_def)

lemma step_frame_heap:
  "step_frame st r st' \<Longrightarrow> heap st' q = (if q = r then (heap st r)\<lparr>ctx := ctx (heap st' r)\<rparr> else heap st q)"
  by (auto simp: step_frame_def)












lemma step_frame_rest:
  "step_frame st r st' \<Longrightarrow>
   activeTasks st' = activeTasks st \<and> nextRef st' = nextRef st \<and> now st' = now st \<and>
   taskResults st' = taskResults st"
  by (auto simp: step_frame_def)

lemma step_frame_executeTask_loop: "step_frame st r (snd (executeTask_loop st r ss results))"
proof (induction ss arbitrary: st results)
  case Nil
  show ?case by (simp add: step_frame_refl)
next
  case (Cons s ss)
  obtain x st1 where step: "executeTaskStep st r s = (x, st1)"
    by (cases "executeTaskStep st r s")
  then have 1: "step_frame st r st1"
    using step_frame_executeTaskStep [of st r s] by simp
  have 2: "\<And>res. step_frame st r (snd (executeTask_loop st1 r ss res))"
    by (rule step_frame_trans [OF 1 Cons.IH])
  from step 1 2 show ?case
    by (cases x) simp_all
qed

lemma step_frame_fields:
  "step_frame st r st' \<Longrightarrow>
   status (heap st' q) = status (heap st q) \<and> completed (heap st' q) = completed (heap st q)"
  by (auto simp: step_frame_def)

text \<open>While its steps run, a task keeps its status and its completion time.\<close>

lemma executeTask_loop_status:
  "status (heap (snd (executeTask_loop st r ss results)) q) = status (heap st q) \<and>
   completed (heap (snd (executeTask_loop st r ss results)) q) = completed (heap st q)"
  by (rule step_frame_fields [OF step_frame_executeTask_loop])

subsection \<open>Concurrency per agent kind\<close>




subsection \<open>Sensitive steps\<close>

text \<open>
  C6, as the code has it. A sensitive step whose action is not recorded as confirmed in
  the task context adds these events and no others: nothing when its agent is not
  registered or not available, or when no security agent is registered; otherwise one
  confirmation request, followed by the invocation of the agent exactly when the answer
  grants the request.
\<close>

theorem sensitive_step_confirmation:
  assumes "isSensitiveOperation s" and "\<not> alreadyConfirmed (heap st r) s"
  shows "events (snd (executeTaskStep st r s)) = events st @
           (if agents st (agent s) \<noteq> None \<and> isAgentAvailable st (agent s) = Inr True \<and>
               agents st ''security'' \<noteq> None
            then ConfirmationRequested (task_id (heap st r)) s #
                   (if confirmationGranted st r s
                    then [AgentInvoked (agent s) (action s), AgentSettled (agent s)] else [])
            else [])"
  using assms events_executeTaskStep [of st r s]
  by (simp add: step_events_def)

theorem sensitive_step_confirmation_witness:
  "isSensitiveOperation delete_step \<and>
   \<not> alreadyConfirmed (heap (started_state (example_state
        [(''smart_home'', home_agent), (''security'', granting_security)] [delete_step]) 0) 0) delete_step \<and>
   events (snd (executeTaskStep (started_state (example_state
        [(''smart_home'', home_agent), (''security'', granting_security)] [delete_step]) 0) 0 delete_step)) =
     [ConfirmationRequested ''task_1'' delete_step,
      AgentInvoked ''smart_home'' ''delete_schedule'', AgentSettled ''smart_home'']"
proof -
  let ?st = "started_state (example_state
        [(''smart_home'', home_agent), (''security'', granting_security)] [delete_step]) 0"
  have s: "isSensitiveOperation delete_step"
    by (simp add: step_defs delete_step_def)
  have c: "\<not> alreadyConfirmed (heap ?st 0) delete_step"
    by (simp add: step_defs example_defs more_example_defs)
  have "events ?st @
           (if agents ?st (agent delete_step) \<noteq> None \<and> isAgentAvailable ?st (agent delete_step) = Inr True \<and>
               agents ?st ''security'' \<noteq> None
            then ConfirmationRequested (task_id (heap ?st 0)) delete_step #
                   (if confirmationGranted ?st 0 delete_step
                    then [AgentInvoked (agent delete_step) (action delete_step), AgentSettled (agent delete_step)]
                    else [])
            else []) =
     [ConfirmationRequested ''task_1'' delete_step,
      AgentInvoked ''smart_home'' ''delete_schedule'', AgentSettled ''smart_home'']"
    by (simp add: step_defs example_defs more_example_defs confirmationGranted_def)
  with sensitive_step_confirmation [OF s c] s c show ?thesis
    by simp
qed

theorem sensitive_step_counterexample:
  "isSensitiveOperation delete_step \<and>
   \<not> alreadyConfirmed (heap (started_state (example_state [(''smart_home'', home_agent)] [delete_step]) 0) 0)
       delete_step \<and>
   events (started_state (example_state [(''smart_home'', home_agent)] [delete_step]) 0) = [] \<and>
   executeTaskStep (started_state (example_state [(''smart_home'', home_agent)] [delete_step]) 0) 0 delete_step =
     (Inl ''Sensitive operation requires confirmation'',
      started_state (example_state [(''smart_home'', home_agent)] [delete_step]) 0)"
  by (simp add: step_defs example_defs more_example_defs)

subsection \<open>Steps for an unregistered agent\<close>

lemma outcome_prop_complete [simp]: "outcome_prop x ''complete'' = JUndefined"
  by (simp add: outcome_prop_def)

lemma executeTask_loop_aborts:
  "\<exists>s \<in> set ss. agents st (agent s) = None \<and> critical s \<Longrightarrow>
   isl (fst (executeTask_loop st r ss results))"
proof (induction ss arbitrary: st results)
  case Nil
  then show ?case by simp
next
  case (Cons s ss)
  obtain x st1 where step: "executeTaskStep st r s = (x, st1)"
    by (cases "executeTaskStep st r s")
  then have ag: "agents st1 = agents st"
    using step_frame_agents [OF step_frame_executeTaskStep [of st r s]] by simp
  show ?case
  proof (cases "agents st (agent s) = None \<and> critical s")
    case True
    then have "executeTaskStep st r s = (Inl (''Agent not available: '' @ agent s), st)"
      by (simp add: executeTaskStep_def)
    with True show ?thesis
      by (simp add: canContinueOnError_def)
  next
    case False
    with Cons.prems have "\<exists>s \<in> set ss. agents st1 (agent s) = None \<and> critical s"
      by (auto simp: ag)
    from Cons.IH [OF this] have "\<And>res. isl (fst (executeTask_loop st1 r ss res))" .
    with step show ?thesis
      by (cases x) simp_all
  qed
qed

lemma runTask_failed:
  assumes "\<exists>s \<in> set (steps (plan (heap st r))). agents st (agent s) = None \<and> critical s"
  shows "status (heap (runTask st r) r) = Failed"
proof -
  let ?st1 = "update_task r (\<lambda>t. t\<lparr>status := Executing, started := Some (now st)\<rparr>) st"
  obtain x st2 where loop: "executeTask_loop ?st1 r (steps (plan (heap ?st1 r))) [] = (x, st2)"
    by (cases "executeTask_loop ?st1 r (steps (plan (heap ?st1 r))) []")
  from assms have "\<exists>s \<in> set (steps (plan (heap ?st1 r))). agents ?st1 (agent s) = None \<and> critical s"
    by (simp add: update_task_def)
  from executeTask_loop_aborts [OF this, of r "[]"] loop obtain e where "x = Inl e"
    by (cases x) auto
  with loop have "executeTask st r = (Inl e, st2)"
    by (simp add: executeTask_def Let_def)
  then show ?thesis
    by (simp add: runTask_def handleTaskError_def update_task_def emit_def)
qed

text \<open>
  C4, as the code has it. A step whose agent kind is not registered fails at once with
  \<^verbatim>\<open>Agent not available\<close>, and nothing is invoked or logged. The loop then goes the way
  \<^verbatim>\<open>canContinueOnError\<close> decides for every error: it aborts when the step is critical (the
  task is then marked failed), when the message contains \<^verbatim>\<open>Security\<close> or
  \<^verbatim>\<open>Authorization\<close>, or when the context sets \<^verbatim>\<open>allowPartialFailure\<close> to false; otherwise
  the failure is recorded and the next step is executed.
\<close>

theorem unregistered_agent_outcome:
  assumes "agents st (agent s) = None"
  shows "executeTaskStep st r s = (Inl (''Agent not available: '' @ agent s), st) \<and>
         executeTask_loop st r (s # ss) results =
           (if critical s \<or> str_includes (''Agent not available: '' @ agent s) ''Security''
               \<or> str_includes (''Agent not available: '' @ agent s) ''Authorization''
               \<or> allowPartialFailure (ctx (heap st r)) = JBool False
            then (Inl (''Agent not available: '' @ agent s), st)
            else executeTask_loop st r ss
                   (results @ [\<lparr>success = False, result = JUndefined,
                                 error = Some (''Agent not available: '' @ agent s), step = s\<rparr>])) \<and>
         (critical s \<and> s \<in> set (steps (plan (heap st r))) \<longrightarrow>
            status (heap (runTask st r) r) = Failed)"
proof -
  from assms have 1: "executeTaskStep st r s = (Inl (''Agent not available: '' @ agent s), st)"
    by (simp add: executeTaskStep_def)
  then have 2: "executeTask_loop st r (s # ss) results =
           (if critical s \<or> str_includes (''Agent not available: '' @ agent s) ''Security''
               \<or> str_includes (''Agent not available: '' @ agent s) ''Authorization''
               \<or> allowPartialFailure (ctx (heap st r)) = JBool False
            then (Inl (''Agent not available: '' @ agent s), st)
            else executeTask_loop st r ss
                   (results @ [\<lparr>success = False, result = JUndefined,
                                 error = Some (''Agent not available: '' @ agent s), step = s\<rparr>]))"
    by (simp add: canContinueOnError_def)
  have 3: "critical s \<and> s \<in> set (steps (plan (heap st r))) \<longrightarrow> status (heap (runTask st r) r) = Failed"
    using assms runTask_failed [of st r] by blast
  from 1 2 3 show ?thesis by (intro conjI)
qed

theorem unregistered_agent_outcome_witness:
  "agents (example_state [(''reasoning'', home_agent)] [critical_voice_step, reasoning_step])
     (agent critical_voice_step) = None \<and>
   executeTaskStep (example_state [(''reasoning'', home_agent)] [critical_voice_step, reasoning_step])
     0 critical_voice_step =
     (Inl ''Agent not available: voice'',
      example_state [(''reasoning'', home_agent)] [critical_voice_step, reasoning_step]) \<and>
   status (heap (runTask (example_state [(''reasoning'', home_agent)] [critical_voice_step, reasoning_step]) 0) 0)
     = Failed"
proof -
  let ?st = "example_state [(''reasoning'', home_agent)] [critical_voice_step, reasoning_step]"
  have a: "agents ?st (agent critical_voice_step) = None"
    by (simp add: example_defs more_example_defs critical_voice_step_def)
  have b: "critical critical_voice_step \<and> critical_voice_step \<in> set (steps (plan (heap ?st 0))) \<and>
           agent critical_voice_step = ''voice''"
    by (simp add: example_defs more_example_defs critical_voice_step_def)
  from unregistered_agent_outcome [OF a, of 0 "[]" "[]"] a b show ?thesis
    by simp
qed

theorem unregistered_agent_counterexample:
  "agents (example_state [(''reasoning'', home_agent)] [voice_step, reasoning_step]) (agent voice_step) = None \<and>
   events (runTask (example_state [(''reasoning'', home_agent)] [voice_step, reasoning_step]) 0) =
     [AgentInvoked ''reasoning'' ''analyze'', AgentSettled ''reasoning'', TaskCompletedEvent ''task_1''] \<and>
   status (heap (runTask (example_state [(''reasoning'', home_agent)] [voice_step, reasoning_step]) 0) 0)
     = Completed \<and>
   map_option (\<lambda>res. map error (allResults res))
     (task_res (heap (runTask (example_state [(''reasoning'', home_agent)] [voice_step, reasoning_step]) 0) 0)) =
     Some [Some ''Agent not available: voice'', None]"
  by (simp add: step_defs example_defs more_example_defs)

subsection \<open>Denied confirmations\<close>

text \<open>An error whose message contains \<^verbatim>\<open>Security\<close> or \<^verbatim>\<open>Authorization\<close> aborts the plan
  whatever the step's critical flag; the message thrown for a denied confirmation
  contains neither.\<close>

lemma security_errors_abort:
  "str_includes err ''Security'' \<or> str_includes err ''Authorization'' \<Longrightarrow>
   \<not> canContinueOnError t s err"
  by (simp add: canContinueOnError_def)

lemma denial_not_classified:
  "canContinueOnError t s ''Sensitive operation requires confirmation'' =
     (\<not> critical s \<and> allowPartialFailure (ctx t) \<noteq> JBool False)"
  by (simp add: canContinueOnError_def)

text \<open>
  C2 at a task whose first step is sensitive, not critical, and denied by the security
  agent: the next step is executed and the task is marked completed.
\<close>

theorem confirmation_denied_continues:
  "isSensitiveOperation delete_step \<and> \<not> critical delete_step \<and>
   events (runTask (example_state [(''smart_home'', home_agent), (''security'', strict_security)]
                      [delete_step, respond_step]) 0) =
     [ConfirmationRequested ''task_1'' delete_step,
      AgentInvoked ''smart_home'' ''respond'', AgentSettled ''smart_home'',
      TaskCompletedEvent ''task_1''] \<and>
   status (heap (runTask (example_state [(''smart_home'', home_agent), (''security'', strict_security)]
                      [delete_step, respond_step]) 0) 0) = Completed \<and>
   map_option (\<lambda>res. map error (allResults res))
     (task_res (heap (runTask (example_state [(''smart_home'', home_agent), (''security'', strict_security)]
                      [delete_step, respond_step]) 0) 0)) =
     Some [Some ''Sensitive operation requires confirmation'', None]"
  by (simp add: step_defs example_defs more_example_defs)

subsection \<open>The completion flag of a step result\<close>

text \<open>The object \<^verbatim>\<open>executeTaskStep\<close> returns has no property \<^verbatim>\<open>complete\<close>, so the loop
  never leaves early after a successful step.\<close>

lemma complete_never_read:
  "executeTaskStep st r s = (Inr x, st1) \<Longrightarrow>
   executeTask_loop st r (s # ss) results = executeTask_loop st1 r ss (results @ [x])"
  by simp

text \<open>
  C10 at a task of two steps whose agent answers each with a result that carries
  \<^verbatim>\<open>complete: true\<close>: the second step is executed as well.
\<close>

theorem complete_flag_ignored:
  "events (runTask (example_state [(''reasoning'', finishing_agent)] [reasoning_step, reasoning_step]) 0) =
     [AgentInvoked ''reasoning'' ''analyze'', AgentSettled ''reasoning'',
      AgentInvoked ''reasoning'' ''analyze'', AgentSettled ''reasoning'',
      TaskCompletedEvent ''task_1''] \<and>
   status (heap (runTask (example_state [(''reasoning'', finishing_agent)] [reasoning_step, reasoning_step]) 0) 0)
     = Completed \<and>
   map_option (\<lambda>res. map result (allResults res))
     (task_res (heap (runTask (example_state [(''reasoning'', finishing_agent)]
                                 [reasoning_step, reasoning_step]) 0) 0)) =
     Some [JObj [(''complete'', JBool True), (''response'', JStr ''Done.'')],
           JObj [(''complete'', JBool True), (''response'', JStr ''Done.'')]]"
  by (simp add: step_defs example_defs more_example_defs)

subsection \<open>Result aggregation\<close>

lemma step_invokeAgent: "fst (invokeAgent st a r s) = Inr x \<Longrightarrow> step x = s"
  by (auto simp: invokeAgent_def Let_def split: exec_outcome.splits)

lemma step_executeTaskStep: "executeTaskStep st r s = (Inr x, st1) \<Longrightarrow> step x = s"
proof -
  assume a: "executeTaskStep st r s = (Inr x, st1)"
  have i: "\<And>st0 a. invokeAgent st0 a r s = (Inr x, st1) \<Longrightarrow> step x = s"
    using step_invokeAgent by (metis fst_conv)
  from a show ?thesis
    by (auto simp: executeTaskStep_def dest: i
        split: option.splits sum.splits bool.splits prod.splits if_splits)
qed

lemma executeTask_loop_steps:
  "executeTask_loop st r ss acc = (Inr results, st2) \<Longrightarrow>
   \<exists>new. results = acc @ new \<and> map step new = ss"
proof (induction ss arbitrary: st acc)
  case Nil
  then show ?case by simp
next
  case (Cons s ss)
  obtain x st1 where e: "executeTaskStep st r s = (x, st1)"
    by (cases "executeTaskStep st r s")
  show ?case
  proof (cases x)
    case (Inr y)
    with e have sy: "step y = s" by (simp add: step_executeTaskStep)
    from Cons.prems e Inr have "executeTask_loop st1 r ss (acc @ [y]) = (Inr results, st2)"
      by simp
    from Cons.IH [OF this] obtain new where "results = (acc @ [y]) @ new" "map step new = ss"
      by blast
    with sy show ?thesis
      by (intro exI [of _ "y # new"]) simp
  next
    case (Inl err)
    let ?f = "\<lparr>success = False, result = JUndefined, error = Some err, step = s\<rparr>"
    from Cons.prems e Inl have "executeTask_loop st1 r ss (acc @ [?f]) = (Inr results, st2)"
      by (simp split: if_splits)
    from Cons.IH [OF this] obtain new where "results = (acc @ [?f]) @ new" "map step new = ss"
      by blast
    then show ?thesis
      by (intro exI [of _ "?f # new"]) simp
  qed
qed

lemma generateSuccessResponse_total:
  "results \<noteq> [] \<Longrightarrow> \<exists>v. generateSuccessResponse results = Inr v"
proof -
  assume "results \<noteq> []"
  moreover have "truthy (result (last results)) \<Longrightarrow> \<exists>w. get_prop (result (last results)) ''response'' = Inr w"
    by (cases "result (last results)") simp_all
  ultimately show ?thesis
    by (auto simp: generateSuccessResponse_def Let_def split: sum.splits)
qed

lemma generateUnifiedResponse_total:
  "results \<noteq> [] \<Longrightarrow> toneAvailable st t results \<Longrightarrow> \<exists>v. generateUnifiedResponse st t results = Inr v"
  using generateSuccessResponse_total [of results]
  by (auto simp: generateUnifiedResponse_def toneAvailable_def
      split: option.splits sum.splits response_class.splits)

lemma started_after_loop:
  "started (heap (snd (executeTask_loop (started_state st r) r ss acc)) r) = Some (now st)"
proof -
  from step_frame_executeTask_loop [of "started_state st r" r ss acc]
  obtain c evs where "snd (executeTask_loop (started_state st r) r ss acc) =
      (started_state st r)\<lparr>heap := (heap (started_state st r))(r := (heap (started_state st r) r)\<lparr>ctx := c\<rparr>),
                             events := events (started_state st r) @ evs\<rparr>"
    unfolding step_frame_def by blast
  then show ?thesis
    by (simp add: started_state_def update_task_def)
qed

lemma executeTask_started: 
  "executeTask st r =
     (case executeTask_loop (started_state st r) r (steps (plan (heap st r))) [] of
           (Inl e, st2) \<Rightarrow> (Inl e, st2)
         | (Inr results, st2) \<Rightarrow>
             (case compileTaskResults st2 (heap st2 r) results of
                Inl e \<Rightarrow> (Inl e, st2)
              | Inr finalResult \<Rightarrow>
                  (Inr finalResult,
                   emit (TaskCompletedEvent (task_id (heap st2 r)))
                     ((update_task r (\<lambda>t. t\<lparr>status := Completed, completed := Some (now st2),
                                task_res := Some finalResult\<rparr>) st2)
                        \<lparr>taskResults := map_set (task_id (heap st2 r)) finalResult (taskResults st2)\<rparr>))))"
  by (simp add: executeTask_def started_state_def Let_def update_task_def
      split: prod.splits sum.splits)

lemma classify_cases:
  "results \<noteq> [] \<Longrightarrow>
   (classify results = SuccessResponse \<longleftrightarrow> (\<forall>x \<in> set results. success x)) \<and>
   (classify results = PartialSuccessResponse \<longleftrightarrow>
      (\<exists>x \<in> set results. success x) \<and> (\<exists>x \<in> set results. \<not> success x)) \<and>
   (classify results = FailureResponse \<longleftrightarrow> (\<forall>x \<in> set results. \<not> success x))"
  by (cases results) (auto simp: classify_def list_all_iff list_ex_iff)

lemma compileTaskResults_fields:
  assumes "compileTaskResults st t results = Inr res"
  shows "allResults res = results" and "results \<noteq> []"
    and "successfulSteps res = length (filter success results)"
    and "failedSteps res = length (filter (\<lambda>x. \<not> success x) results)"
    and "tr_success res \<longleftrightarrow> classify results \<noteq> FailureResponse"
    and "Inr (unifiedResponse res) =
           (case classify results of
              SuccessResponse \<Rightarrow> generateSuccessResponse results
            | PartialSuccessResponse \<Rightarrow> Inr (generatePartialSuccessResponse results)
            | FailureResponse \<Rightarrow> Inr (generateFailureResponse results))"
proof -
  from assms show all: "allResults res = results"
    and "successfulSteps res = length (filter success results)"
    and "failedSteps res = length (filter (\<lambda>x. \<not> success x) results)"
    by (auto simp: compileTaskResults_def Let_def split: sum.splits option.splits)
  from assms have uni: "generateUnifiedResponse st t results = Inr (unifiedResponse res)"
    and flag: "tr_success res \<longleftrightarrow> filter success results \<noteq> []"
    by (auto simp: compileTaskResults_def Let_def split: sum.splits option.splits)
  from uni show gen: "Inr (unifiedResponse res) =
           (case classify results of
              SuccessResponse \<Rightarrow> generateSuccessResponse results
            | PartialSuccessResponse \<Rightarrow> Inr (generatePartialSuccessResponse results)
            | FailureResponse \<Rightarrow> Inr (generateFailureResponse results))"
    by (auto simp: generateUnifiedResponse_def split: sum.splits)
  show ne: "results \<noteq> []"
  proof
    assume "results = []"
    with gen show False by (simp add: classify_def generateSuccessResponse_def)
  qed
  from flag ne show "tr_success res \<longleftrightarrow> classify results \<noteq> FailureResponse"
    by (auto simp: classify_def list_all_iff list_ex_iff filter_empty_conv)
qed

lemma compileTaskResults_total:
  "results \<noteq> [] \<Longrightarrow> toneAvailable st t results \<Longrightarrow> started t \<noteq> None \<Longrightarrow>
   \<exists>res. compileTaskResults st t results = Inr res"
  using generateUnifiedResponse_total [of results st t]
  by (auto simp: compileTaskResults_def Let_def split: sum.splits option.splits)

lemma executeTask_returns:
  "\<not> isl (fst (executeTask st r)) \<Longrightarrow>
   executeTask st r = (Inr (projr (fst (executeTask st r))), snd (executeTask st r))"
  by (cases "executeTask st r"; cases "fst (executeTask st r)") auto

text \<open>
  C5. When \<^verbatim>\<open>executeTask\<close> returns a result, its list of outcomes is the list the loop
  over the plan collected, one outcome for each step of the plan in order (all steps were
  attempted), the list is not empty, and the task is marked completed with that result.
  The branch of \<^verbatim>\<open>generateUnifiedResponse\<close> that produced the unified response is the
  success branch exactly when every outcome succeeded, the partial branch exactly when at
  least one but not all succeeded, and the failure branch exactly when none succeeded;
  the counts of the result are the counts of the list, and its flag \<^verbatim>\<open>success\<close> separates
  the failure branch from the other two. Conversely, whenever the loop ends with a
  non-empty list of outcomes and the response tone is available, \<^verbatim>\<open>executeTask\<close> returns
  a result with that list, whichever of the three branches applies.
\<close>

theorem executeTask_classification:
  "(\<forall>res st'. executeTask st r = (Inr res, st') \<longrightarrow>
      (\<exists>st2. executeTask_loop (started_state st r) r (steps (plan (heap st r))) [] =
               (Inr (allResults res), st2)) \<and>
      map step (allResults res) = steps (plan (heap st r)) \<and>
      allResults res \<noteq> [] \<and>
      status (heap st' r) = Completed \<and> task_res (heap st' r) = Some res \<and>
      successfulSteps res = length (filter success (allResults res)) \<and>
      failedSteps res = length (filter (\<lambda>x. \<not> success x) (allResults res)) \<and>
      (tr_success res \<longleftrightarrow> classify (allResults res) \<noteq> FailureResponse) \<and>
      (classify (allResults res) = SuccessResponse \<longleftrightarrow> (\<forall>x \<in> set (allResults res). success x)) \<and>
      (classify (allResults res) = PartialSuccessResponse \<longleftrightarrow>
         (\<exists>x \<in> set (allResults res). success x) \<and> (\<exists>x \<in> set (allResults res). \<not> success x)) \<and>
      (classify (allResults res) = FailureResponse \<longleftrightarrow> (\<forall>x \<in> set (allResults res). \<not> success x)) \<and>
      Inr (unifiedResponse res) =
        (case classify (allResults res) of
           SuccessResponse \<Rightarrow> generateSuccessResponse (allResults res)
         | PartialSuccessResponse \<Rightarrow> Inr (generatePartialSuccessResponse (allResults res))
         | FailureResponse \<Rightarrow> Inr (generateFailureResponse (allResults res)))) \<and>
   (\<forall>results st2.
      executeTask_loop (started_state st r) r (steps (plan (heap st r))) [] = (Inr results, st2) \<and>
      results \<noteq> [] \<and> toneAvailable st2 (heap st2 r) results \<longrightarrow>
      (\<exists>res st'. executeTask st r = (Inr res, st') \<and> allResults res = results))"
proof (intro conjI allI impI)
  fix res st'
  assume ex: "executeTask st r = (Inr res, st')"
  obtain x st2 where loop: "executeTask_loop (started_state st r) r (steps (plan (heap st r))) [] = (x, st2)"
    by (cases "executeTask_loop (started_state st r) r (steps (plan (heap st r))) []")
  with ex obtain results where x: "x = Inr results"
    and comp: "compileTaskResults st2 (heap st2 r) results = Inr res"
    and st': "st' = emit (TaskCompletedEvent (task_id (heap st2 r)))
        ((update_task r (\<lambda>t. t\<lparr>status := Completed, completed := Some (now st2), task_res := Some res\<rparr>) st2)
          \<lparr>taskResults := map_set (task_id (heap st2 r)) res (taskResults st2)\<rparr>)"
    by (auto simp: executeTask_started split: sum.splits)
  note f = compileTaskResults_fields [OF comp]
  from loop x f(1) show "\<exists>st2. executeTask_loop (started_state st r) r (steps (plan (heap st r))) [] =
               (Inr (allResults res), st2)"
    by simp
  from executeTask_loop_steps [of "started_state st r" r "steps (plan (heap st r))" "[]" results st2] loop x f(1)
  show "map step (allResults res) = steps (plan (heap st r))" by simp
  from f show "allResults res \<noteq> []" by simp
  from st' show "status (heap st' r) = Completed" by (simp add: update_task_def emit_def)
  from st' show "task_res (heap st' r) = Some res" by (simp add: update_task_def emit_def)
  from f show "successfulSteps res = length (filter success (allResults res))" by simp
  from f show "failedSteps res = length (filter (\<lambda>x. \<not> success x) (allResults res))" by simp
  from f show "tr_success res \<longleftrightarrow> classify (allResults res) \<noteq> FailureResponse" by simp
  from classify_cases [OF f(2)] f(1)
  show "classify (allResults res) = SuccessResponse \<longleftrightarrow> (\<forall>x \<in> set (allResults res). success x)"
    and "classify (allResults res) = PartialSuccessResponse \<longleftrightarrow>
         (\<exists>x \<in> set (allResults res). success x) \<and> (\<exists>x \<in> set (allResults res). \<not> success x)"
    and "classify (allResults res) = FailureResponse \<longleftrightarrow> (\<forall>x \<in> set (allResults res). \<not> success x)"
    by simp_all
  from f(6) show "Inr (unifiedResponse res) =
        (case classify (allResults res) of
           SuccessResponse \<Rightarrow> generateSuccessResponse (allResults res)
         | PartialSuccessResponse \<Rightarrow> Inr (generatePartialSuccessResponse (allResults res))
         | FailureResponse \<Rightarrow> Inr (generateFailureResponse (allResults res)))"
    unfolding f(1) .
next
  fix results st2
  assume a: "executeTask_loop (started_state st r) r (steps (plan (heap st r))) [] = (Inr results, st2) \<and>
      results \<noteq> [] \<and> toneAvailable st2 (heap st2 r) results"
  then have "started (heap st2 r) \<noteq> None"
    using started_after_loop [of st r "steps (plan (heap st r))" "[]"] by simp
  with a obtain res where comp: "compileTaskResults st2 (heap st2 r) results = Inr res"
    using compileTaskResults_total [of results st2 "heap st2 r"] by blast
  with a have "\<exists>st'. executeTask st r = (Inr res, st')"
    by (simp add: executeTask_started)
  with compileTaskResults_fields(1) [OF comp]
  show "\<exists>res st'. executeTask st r = (Inr res, st') \<and> allResults res = results"
    by blast
qed

theorem executeTask_classification_witness:
  "map success (allResults (projr (fst (executeTask success_example 0)))) = [True, True] \<and>
   classify (allResults (projr (fst (executeTask success_example 0)))) = SuccessResponse \<and>
   unifiedResponse (projr (fst (executeTask success_example 0))) = JStr ''Done.'' \<and>
   map step (allResults (projr (fst (executeTask success_example 0)))) =
     steps (plan (heap success_example 0)) \<and>
   map success (allResults (projr (fst (executeTask partial_example 0)))) = [True, False, True] \<and>
   classify (allResults (projr (fst (executeTask partial_example 0)))) = PartialSuccessResponse \<and>
   unifiedResponse (projr (fst (executeTask partial_example 0))) =
     JStr ''Task partially completed. 2 of 3 steps succeeded, Sir.'' \<and>
   map step (allResults (projr (fst (executeTask partial_example 0)))) =
     steps (plan (heap partial_example 0)) \<and>
   status (heap (snd (executeTask partial_example 0)) 0) = Completed \<and>
   map success (allResults (projr (fst (executeTask failure_example 0)))) = [False, False] \<and>
   classify (allResults (projr (fst (executeTask failure_example 0)))) = FailureResponse \<and>
   unifiedResponse (projr (fst (executeTask failure_example 0))) =
     JStr ''Unable to complete the task. Agent not available: voice, Sir.'' \<and>
   map step (allResults (projr (fst (executeTask failure_example 0)))) =
     steps (plan (heap failure_example 0))"
proof -
  have s: "\<not> isl (fst (executeTask success_example 0)) \<and>
      map success (allResults (projr (fst (executeTask success_example 0)))) = [True, True] \<and>
      unifiedResponse (projr (fst (executeTask success_example 0))) = JStr ''Done.''"
    by (simp add: success_example_def step_defs example_defs more_example_defs)
  have p: "\<not> isl (fst (executeTask partial_example 0)) \<and>
      map success (allResults (projr (fst (executeTask partial_example 0)))) = [True, False, True] \<and>
      unifiedResponse (projr (fst (executeTask partial_example 0))) =
        JStr ''Task partially completed. 2 of 3 steps succeeded, Sir.''"
    by (simp add: partial_example_def step_defs example_defs string_of_nat_digit)
  have f: "\<not> isl (fst (executeTask failure_example 0)) \<and>
      map success (allResults (projr (fst (executeTask failure_example 0)))) = [False, False] \<and>
      unifiedResponse (projr (fst (executeTask failure_example 0))) =
        JStr ''Unable to complete the task. Agent not available: voice, Sir.''"
    by (simp add: failure_example_def step_defs example_defs more_example_defs)
  have c: "\<And>xs. classify xs =
      (if list_all (\<lambda>b. b) (map success xs) then SuccessResponse
       else if list_ex (\<lambda>b. b) (map success xs) then PartialSuccessResponse else FailureResponse)"
    by (simp add: classify_def list_all_iff list_ex_iff)
  note ts = executeTask_classification [of success_example 0, THEN conjunct1, rule_format,
      OF executeTask_returns, OF conjunct1 [OF s], THEN conjunct2, THEN conjunct1]
  note tp = executeTask_classification [of partial_example 0, THEN conjunct1, rule_format,
      OF executeTask_returns, OF conjunct1 [OF p]]
  note tf = executeTask_classification [of failure_example 0, THEN conjunct1, rule_format,
      OF executeTask_returns, OF conjunct1 [OF f], THEN conjunct2, THEN conjunct1]
  have cs: "classify (allResults (projr (fst (executeTask success_example 0)))) = SuccessResponse"
    unfolding c using s by simp
  have cp: "classify (allResults (projr (fst (executeTask partial_example 0)))) = PartialSuccessResponse"
    unfolding c using p by simp
  have cf: "classify (allResults (projr (fst (executeTask failure_example 0)))) = FailureResponse"
    unfolding c using f by simp
  from s p f cs cp cf ts tf tp [THEN conjunct2, THEN conjunct1]
    tp [THEN conjunct2, THEN conjunct2, THEN conjunct2, THEN conjunct1]
  show ?thesis
    by blast
qed

subsection \<open>Retention sweep\<close>

text \<open>The sweep changes no task. It removes from the store exactly the entries whose task
  has a completion time more than five minutes (300000 ms) in the past, whatever the
  status of the task, and keeps the others in their order.\<close>

lemma cleanup_by_stamp:
  "heap (cleanupCompletedTasks st) = heap st \<and>
   activeTasks (cleanupCompletedTasks st) =
     filter (\<lambda>(k, r). \<not> (\<exists>c. completed (heap st r) = Some c \<and> now st - c > 5 * 60 * 1000))
       (activeTasks st)"
proof -
  have e: "\<And>t. expired st t = (\<exists>c. completed t = Some c \<and> now st - c > 5 * 60 * 1000)"
    by (simp add: expired_def maxAge_def split: option.splits)
  show ?thesis
    by (simp add: cleanupCompletedTasks_def Let_def e)
qed

lemma cleanup_by_stamp_example:
  "map (\<lambda>(k, r). (status (heap sweep_example r), completed (heap sweep_example r))) (activeTasks sweep_example) =
     [(Pending, None), (Completed, Some 1000), (Failed, Some 1001)] \<and>
   now sweep_example = 301001 \<and>
   activeTasks (cleanupCompletedTasks sweep_example) = [(''a'', 0), (''c'', 2)]"
  by (simp add: cleanup_by_stamp sweep_example_def init_coordinator_def example_task_def)

text \<open>Between the operations of the coordinator, the agent events included, a pending or
  executing task of the store carries no completion time, and a task that carries none
  when it is started carries none while its steps run.\<close>

lemma map_set_keys: "set (map_set k v kvs) \<subseteq> insert (k, v) (set kvs)"
  by (induction kvs) (auto split: if_splits)

lemma runTask_store:
  "activeTasks (runTask st r) = activeTasks st \<and> nextRef (runTask st r) = nextRef st \<and>
   (\<forall>q. q \<noteq> r \<longrightarrow> heap (runTask st r) q = heap st q) \<and>
   (status (heap (runTask st r) r) = Completed \<or> status (heap (runTask st r) r) = Failed)"
proof -
  let ?st1 = "update_task r (\<lambda>t. t\<lparr>status := Executing, started := Some (now st)\<rparr>) st"
  obtain x st2 where loop: "executeTask_loop ?st1 r (steps (plan (heap ?st1 r))) [] = (x, st2)"
    by (cases "executeTask_loop ?st1 r (steps (plan (heap ?st1 r))) []")
  then have f: "step_frame ?st1 r st2"
    using step_frame_executeTask_loop [of ?st1 r "steps (plan (heap ?st1 r))" "[]"] by simp
  from step_frame_rest [OF f] have a: "activeTasks st2 = activeTasks st" "nextRef st2 = nextRef st"
    by (simp_all add: update_task_def)
  from step_frame_heap [OF f] have h: "\<And>q. q \<noteq> r \<Longrightarrow> heap st2 q = heap st q"
    by (simp add: update_task_def)
  from loop a h show ?thesis
    by (cases x; cases "compileTaskResults st2 (heap st2 r) (projr x)")
       (simp_all add: runTask_def executeTask_def Let_def handleTaskError_def update_task_def emit_def)
qed

lemma store_ok_runTask: "store_ok st \<Longrightarrow> store_ok (runTask st r)"
proof -
  assume ok: "store_ok st"
  note s = runTask_store [of st r]
  have "\<And>k q. (k, q) \<in> set (activeTasks st) \<Longrightarrow>
          status (heap (runTask st r) q) = Pending \<or> status (heap (runTask st r) q) = Executing \<Longrightarrow>
          completed (heap (runTask st r) q) = None"
  proof -
    fix k q
    assume m: "(k, q) \<in> set (activeTasks st)"
      and p: "status (heap (runTask st r) q) = Pending \<or> status (heap (runTask st r) q) = Executing"
    from p s have "q \<noteq> r" by auto
    with s have "heap (runTask st r) q = heap st q" by simp
    with ok m p show "completed (heap (runTask st r) q) = None"
      by (auto simp: store_ok_def unstamped_def)
  qed
  with ok s show ?thesis
    by (auto simp: store_ok_def unstamped_def)
qed

lemma store_ok_processTasks_loop: "store_ok st \<Longrightarrow> store_ok (processTasks_loop st)"
proof (induction st rule: processTasks_loop.induct)
  case (1 st)
  show ?case
  proof (cases "taskQueue st")
    case Nil
    with "1.prems" show ?thesis
      by (simp add: processTasks_loop.simps [of st])
  next
    case (Cons r q)
    show ?thesis
    proof (cases "getActiveTaskCount st < coordinator_maxConcurrentTasks")
      case False
      with Cons "1.prems" show ?thesis
        by (simp add: processTasks_loop.simps [of st])
    next
      case True
      from "1.prems" have "store_ok (st\<lparr>taskQueue := q\<rparr>)"
        by (simp add: store_ok_def unstamped_def)
      then have "store_ok (runTask (st\<lparr>taskQueue := q\<rparr>) r)"
        by (rule store_ok_runTask)
      from "1.IH" [OF Cons True this] Cons True show ?thesis
        by (simp add: processTasks_loop.simps [of st])
    qed
  qed
qed

lemma store_ok_processTasks: "store_ok st \<Longrightarrow> store_ok (processTasks st)"
proof -
  assume ok: "store_ok st"
  then have "store_ok (st\<lparr>isProcessing := True\<rparr>)"
    by (simp add: store_ok_def unstamped_def)
  then have "store_ok (processTasks_loop (st\<lparr>isProcessing := True\<rparr>))"
    by (rule store_ok_processTasks_loop)
  then have "store_ok ((processTasks_loop (st\<lparr>isProcessing := True\<rparr>))\<lparr>isProcessing := False\<rparr>)"
    by (simp add: store_ok_def unstamped_def)
  with ok show ?thesis
    by (simp add: processTasks_def)
qed

lemma store_ok_cleanupCompletedTasks: "store_ok st \<Longrightarrow> store_ok (cleanupCompletedTasks st)"
  by (auto simp: store_ok_def unstamped_def cleanupCompletedTasks_def Let_def)

lemma store_ok_registerAgent: "store_ok st \<Longrightarrow> registerAgent st k a = Inr st' \<Longrightarrow> store_ok st'"
  by (auto simp: store_ok_def unstamped_def registerAgent_def split: option.splits)

lemma store_ok_processUserRequest:
  assumes "store_ok st"
  shows "store_ok (snd (processUserRequest st tid inp c))"
proof (cases "\<exists>p. performSecurityCheck st inp c = Inr () \<and> createTaskPlan st inp c = Inr p")
  case False
  with assms show ?thesis
    by (auto simp: processUserRequest_def split: sum.splits)
next
  case True
  then obtain p where p: "performSecurityCheck st inp c = Inr ()" "createTaskPlan st inp c = Inr p"
    by auto
  let ?r = "nextRef st"
  have old: "\<And>k q. (k, q) \<in> set (activeTasks st) \<Longrightarrow> q \<noteq> ?r"
    using assms by (auto simp: store_ok_def)
  have sub: "\<And>t. set (map_set tid ?r (activeTasks st)) \<subseteq> insert (tid, ?r) (set (activeTasks st))"
    by (rule map_set_keys)
  from assms p old sub show ?thesis
    by (auto simp: processUserRequest_def Let_def addTask_def store_ok_def unstamped_def
        dest!: subsetD [OF map_set_keys])
qed

lemma store_ok_init: "store_ok init_coordinator"
  by (simp add: store_ok_def unstamped_def init_coordinator_def)

lemma unstamped_while_executing:
  assumes "unstamped st" and "completed (heap st r) = None"
  shows "unstamped (snd (executeTask_loop (started_state st r) r ss results))"
proof -
  let ?st1 = "started_state st r"
  let ?st2 = "snd (executeTask_loop ?st1 r ss results)"
  have a: "activeTasks ?st2 = activeTasks st"
    using step_frame_rest [OF step_frame_executeTask_loop [of ?st1 r ss results]]
    by (simp add: started_state_def update_task_def)
  have f: "\<And>q. status (heap ?st2 q) = status (heap ?st1 q)"
    "\<And>q. completed (heap ?st2 q) = completed (heap ?st1 q)"
    using executeTask_loop_status [of ?st1 r ss results] by simp_all
  have g: "\<And>q. completed (heap ?st1 q) = completed (heap st q)"
    "\<And>q. q \<noteq> r \<Longrightarrow> status (heap ?st1 q) = status (heap st q)"
    by (simp_all add: started_state_def update_task_def)
  have "\<And>k q. (k, q) \<in> set (activeTasks st) \<Longrightarrow>
           status (heap ?st2 q) = Pending \<or> status (heap ?st2 q) = Executing \<Longrightarrow>
           completed (heap ?st2 q) = None"
  proof -
    fix k q
    assume m: "(k, q) \<in> set (activeTasks st)"
      and p: "status (heap ?st2 q) = Pending \<or> status (heap ?st2 q) = Executing"
    show "completed (heap ?st2 q) = None"
    proof (cases "q = r")
      case True
      with assms(2) show ?thesis by (simp only: f g)
    next
      case False
      with p g(2) [of q] have "status (heap st q) = Pending \<or> status (heap st q) = Executing"
        by (simp add: f)
      with assms(1) m have "completed (heap st q) = None"
        by (auto simp: unstamped_def)
      then show ?thesis by (simp only: f g)
    qed
  qed
  then show ?thesis
    unfolding unstamped_def a by blast
qed

lemma store_ok_agentEmits: "store_ok st \<Longrightarrow> store_ok (agentEmits st k ev)"
proof -
  assume ok: "store_ok st"
  then have u: "store_ok (updateSystemState st k)"
    by (simp add: store_ok_def unstamped_def updateSystemState_def)
  have c: "\<And>st i. store_ok st \<Longrightarrow> store_ok (completeTask st i)"
    by (auto simp: completeTask_def store_ok_def unstamped_def update_task_def emit_def split: option.splits)
  have f: "\<And>st i e. store_ok st \<Longrightarrow> store_ok (handleTaskFailure st i e)"
    by (auto simp: handleTaskFailure_def store_ok_def unstamped_def update_task_def emit_def split: option.splits)
  have p: "\<And>i v. store_ok (handleAgentTaskProgress st k i v)"
    using ok
    by (auto simp: handleAgentTaskProgress_def store_ok_def unstamped_def update_task_def emit_def
        split: option.splits)
  have cc: "\<And>st i. store_ok st \<Longrightarrow> store_ok (checkTaskCompletion st i)"
    using c by (auto simp: checkTaskCompletion_def Let_def split: option.splits)
  from ok u c f p cc show ?thesis
    by (cases ev) (simp_all add: handleAgentTaskCompleted_def handleAgentTaskFailed_def)
qed

lemmas stale_defs =
  stale_queued_def stale_executing_def registerAgent_def agentConfig_def handleAgentTaskFailed_def
  handleTaskFailure_def updateSystemState_def shift_def started_state_def update_task_def emit_def
  addTask_def init_coordinator_def example_task_def example_context_def respond_step_def

text \<open>
  C8 at a task that an agent reported failed while it was queued. \<^verbatim>\<open>handleTaskFailure\<close>
  stamps it with a completion time and leaves it in the queue; \<^verbatim>\<open>executeTask\<close> marks it
  executing and keeps the stamp; five minutes after the stamp the sweep removes the
  executing task from the store.
\<close>

theorem sweep_removes_executing:
  "taskQueue stale_queued = [0] \<and>
   status (heap stale_queued 0) = Failed \<and>
   completed (heap stale_queued 0) = Some 1000 \<and>
   fst (shift (stale_queued\<lparr>now := 300000\<rparr>)) = Some 0 \<and>
   status (heap stale_executing 0) = Executing \<and>
   started (heap stale_executing 0) = Some 300000 \<and>
   completed (heap stale_executing 0) = Some 1000 \<and>
   activeTasks stale_executing = [(''task_1'', 0)] \<and>
   getActiveTaskCount (stale_executing\<lparr>now := 301001\<rparr>) = 1 \<and>
   activeTasks (cleanupCompletedTasks (stale_executing\<lparr>now := 301001\<rparr>)) = [] \<and>
   getActiveTaskCount (cleanupCompletedTasks (stale_executing\<lparr>now := 301001\<rparr>)) = 0"
  by (simp add: stale_defs cleanupCompletedTasks_def expired_def maxAge_def getActiveTaskCount_def Let_def)

end
